theory Spec2Isabelle
  imports Main "HOL-Library.Multiset"
begin

section \<open>Go values: machine integers and byte strings\<close>

text \<open>
  The program is \<^verbatim>\<open>src/api/lyric-api.go\<close>. A Go \<^verbatim>\<open>int\<close> is a 64-bit two's-complement
  integer on the platforms the service is deployed on. It is modelled as an \<^typ>\<open>int\<close> kept
  in the range \<open>-2^63 .. 2^63-1\<close>: every addition, subtraction, multiplication and negation of
  the source is followed by \<open>wrap64\<close>, which is the identity inside the range and wraps around
  outside it. Division and remainder truncate towards zero, as Go's \<^verbatim>\<open>/\<close> and \<^verbatim>\<open>%\<close> do;
  every divisor of the source is a positive constant, so a quotient never leaves the range.

  The calls of \<^verbatim>\<open>logDebug\<close>, \<^verbatim>\<open>logInfo\<close> and \<^verbatim>\<open>logError\<close> change no result and are left
  out. The HTTP client and the handlers around \<^verbatim>\<open>buildResponse\<close> are not modelled.
\<close>

definition wrap64 :: "int \<Rightarrow> int" where
  "wrap64 x = (x + 2 ^ 63) mod 2 ^ 64 - 2 ^ 63"

definition maxInt64 :: int where
  "maxInt64 = 2 ^ 63 - 1"

definition minInt64 :: int where
  "minInt64 = - (2 ^ 63)"

definition add64 :: "int \<Rightarrow> int \<Rightarrow> int" where
  "add64 a b = wrap64 (a + b)"

definition sub64 :: "int \<Rightarrow> int \<Rightarrow> int" where
  "sub64 a b = wrap64 (a - b)"

definition mul64 :: "int \<Rightarrow> int \<Rightarrow> int" where
  "mul64 a b = wrap64 (a * b)"

definition quo64 :: "int \<Rightarrow> int \<Rightarrow> int" where
  "quo64 a b = sgn a * sgn b * (\<bar>a\<bar> div \<bar>b\<bar>)"

definition rem64 :: "int \<Rightarrow> int \<Rightarrow> int" where
  "rem64 a b = sgn a * (\<bar>a\<bar> mod \<bar>b\<bar>)"

text \<open>
  \<^verbatim>\<open>func abs(x int) int { if x < 0 { return -x }; return x }\<close>
  (named \<open>abs_go\<close>: \<open>abs\<close> is HOL's own).
\<close>

definition abs_go :: "int \<Rightarrow> int" where
  "abs_go x = (if x < 0 then wrap64 (- x) else x)"

text \<open>
  A Go \<^verbatim>\<open>string\<close> is a sequence of bytes, here a \<^typ>\<open>string\<close> (a list of 8-bit
  characters). Text outside ASCII is its UTF-8 encoding, written byte by byte.
\<close>

definition isDigit :: "char \<Rightarrow> bool" where
  "isDigit c = (48 \<le> (of_char c :: nat) \<and> (of_char c :: nat) \<le> 57)"

definition digitVal :: "char \<Rightarrow> int" where
  "digitVal c = int (of_char c) - 48"

definition decVal :: "string \<Rightarrow> int" where
  "decVal ds = foldl (\<lambda>acc c. acc * 10 + digitVal c) 0 ds"

text \<open>
  \<^verbatim>\<open>strconv.Atoi\<close>, whose error the source always drops (\<^verbatim>\<open>n, _ := strconv.Atoi(s)\<close>):
  an optional sign and decimal digits; on a syntax error the value is 0, on a range error
  it is the nearest 64-bit bound.
\<close>

definition Atoi :: "string \<Rightarrow> int" where
  "Atoi s =
     (let neg = (s \<noteq> [] \<and> hd s = CHR ''-'');
          ds = (if s \<noteq> [] \<and> (hd s = CHR ''-'' \<or> hd s = CHR ''+'') then tl s else s)
      in if ds = [] \<or> \<not> list_all isDigit ds then 0
         else if neg then max minInt64 (- decVal ds)
         else min maxInt64 (decVal ds))"

definition HasPrefix :: "string \<Rightarrow> string \<Rightarrow> bool" where
  "HasPrefix s p = (take (length p) s = p)"

definition HasSuffix :: "string \<Rightarrow> string \<Rightarrow> bool" where
  "HasSuffix s p = (length p \<le> length s \<and> drop (length s - length p) s = p)"

fun Contains :: "string \<Rightarrow> string \<Rightarrow> bool" where
  "Contains [] sub = (sub = [])"
| "Contains (c # cs) sub = (HasPrefix (c # cs) sub \<or> Contains cs sub)"

text \<open>\<^verbatim>\<open>strings.Split(s, "\n")\<close>: the pieces between line feeds, one more than there are line feeds.\<close>

fun Split :: "string \<Rightarrow> string list" where
  "Split [] = [[]]"
| "Split (c # cs) =
     (let pieces = Split cs
      in if c = CHR 0x0A then [] # pieces
         else (c # hd pieces) # tl pieces)"

text \<open>
  \<^verbatim>\<open>strings.TrimSpace\<close> removes leading and trailing runes for which \<^verbatim>\<open>unicode.IsSpace\<close>
  holds: tab, line feed, vertical tab, form feed, carriage return, space, U+0085, U+00A0,
  U+1680, U+2000 to U+200A, U+2028, U+2029, U+202F, U+205F and U+3000. \<open>spaceRunes\<close> lists
  their UTF-8 encodings; a byte sequence that is not valid UTF-8 decodes to U+FFFD, which is
  not a space.
\<close>

definition spaceRunes :: "string list" where
  "spaceRunes =
     [[CHR 0x09], [CHR 0x0A], [CHR 0x0B], [CHR 0x0C], [CHR 0x0D], [CHR 0x20],
      [CHR 0xC2, CHR 0x85], [CHR 0xC2, CHR 0xA0],
      [CHR 0xE1, CHR 0x9A, CHR 0x80],
      [CHR 0xE2, CHR 0x80, CHR 0x80], [CHR 0xE2, CHR 0x80, CHR 0x81],
      [CHR 0xE2, CHR 0x80, CHR 0x82], [CHR 0xE2, CHR 0x80, CHR 0x83],
      [CHR 0xE2, CHR 0x80, CHR 0x84], [CHR 0xE2, CHR 0x80, CHR 0x85],
      [CHR 0xE2, CHR 0x80, CHR 0x86], [CHR 0xE2, CHR 0x80, CHR 0x87],
      [CHR 0xE2, CHR 0x80, CHR 0x88], [CHR 0xE2, CHR 0x80, CHR 0x89],
      [CHR 0xE2, CHR 0x80, CHR 0x8A],
      [CHR 0xE2, CHR 0x80, CHR 0xA8], [CHR 0xE2, CHR 0x80, CHR 0xA9],
      [CHR 0xE2, CHR 0x80, CHR 0xAF],
      [CHR 0xE2, CHR 0x81, CHR 0x9F],
      [CHR 0xE3, CHR 0x80, CHR 0x80]]"

text \<open>The number of bytes of the space rune a string starts with (ends with); 0 when there is none.\<close>

definition leadingSpace :: "string \<Rightarrow> nat" where
  "leadingSpace s = (case find (HasPrefix s) spaceRunes of None \<Rightarrow> 0 | Some p \<Rightarrow> length p)"

definition trailingSpace :: "string \<Rightarrow> nat" where
  "trailingSpace s = (case find (HasSuffix s) spaceRunes of None \<Rightarrow> 0 | Some p \<Rightarrow> length p)"

lemma leadingSpace_le: "leadingSpace s \<le> length s"
proof (cases "find (HasPrefix s) spaceRunes")
  case None
  then show ?thesis by (simp add: leadingSpace_def)
next
  case (Some p)
  then have "HasPrefix s p" by (auto simp: find_Some_iff)
  then have "length p \<le> length s"
    by (metis HasPrefix_def length_take min.cobounded1)
  with Some show ?thesis by (simp add: leadingSpace_def)
qed

lemma trailingSpace_le: "trailingSpace s \<le> length s"
proof (cases "find (HasSuffix s) spaceRunes")
  case None
  then show ?thesis by (simp add: trailingSpace_def)
next
  case (Some p)
  then have "HasSuffix s p" by (auto simp: find_Some_iff)
  then have "length p \<le> length s" by (simp add: HasSuffix_def)
  with Some show ?thesis by (simp add: trailingSpace_def)
qed

function trimLeft :: "string \<Rightarrow> string" where
  "trimLeft s = (if leadingSpace s = 0 then s else trimLeft (drop (leadingSpace s) s))"
  by pat_completeness auto
termination
proof (relation "measure length")
  fix s :: string
  assume "leadingSpace s \<noteq> 0"
  moreover have "leadingSpace s \<le> length s" by (rule leadingSpace_le)
  ultimately show "(drop (leadingSpace s) s, s) \<in> measure length" by simp
qed simp

function trimRight :: "string \<Rightarrow> string" where
  "trimRight s =
     (if trailingSpace s = 0 then s else trimRight (take (length s - trailingSpace s) s))"
  by pat_completeness auto
termination
proof (relation "measure length")
  fix s :: string
  assume "trailingSpace s \<noteq> 0"
  moreover have "trailingSpace s \<le> length s" by (rule trailingSpace_le)
  ultimately show "(take (length s - trailingSpace s) s, s) \<in> measure length" by simp
qed simp

declare trimLeft.simps [simp del] trimRight.simps [simp del]

definition TrimSpace :: "string \<Rightarrow> string" where
  "TrimSpace s = trimRight (trimLeft s)"

section \<open>The regular expressions\<close>

text \<open>
  Go's \<^verbatim>\<open>regexp\<close> finds the leftmost match and, among those, the one a backtracking
  matcher would find first; \<^verbatim>\<open>\d\<close> is an ASCII digit, \<^verbatim>\<open>.\<close> is any rune but a line
  feed (a byte that is not valid UTF-8 counts as one rune), \<^verbatim>\<open>^\<close> and \<^verbatim>\<open>$\<close> are the
  ends of the text. Each pattern of the source is matched by a function that returns its
  capture groups.
\<close>

text \<open>\<^verbatim>\<open>(\d+)c\<close>: a non-empty run of digits followed by the byte \<open>c\<close>; the digits and the rest.\<close>

definition digitsThen :: "char \<Rightarrow> string \<Rightarrow> (string \<times> string) option" where
  "digitsThen c s =
     (let ds = takeWhile isDigit s; r = dropWhile isDigit s
      in if ds \<noteq> [] \<and> r \<noteq> [] \<and> hd r = c then Some (ds, tl r) else None)"

text \<open>\<^verbatim>\<open>o(\d+),(\d+)c\<close> at the start of a string, for an opening byte \<open>o\<close> and a closing byte \<open>c\<close>.\<close>

definition pairAt :: "char \<Rightarrow> char \<Rightarrow> string \<Rightarrow> (string \<times> string \<times> string) option" where
  "pairAt opn cls s =
     (case s of
        [] \<Rightarrow> None
      | x # r \<Rightarrow>
          if x \<noteq> opn then None
          else (case digitsThen (CHR '','') r of
                  None \<Rightarrow> None
                | Some (d1, r1) \<Rightarrow>
                    (case digitsThen cls r1 of
                       None \<Rightarrow> None
                     | Some (d2, rest) \<Rightarrow> Some (d1, d2, rest))))"

text \<open>\<^verbatim>\<open>yrcLineRe = ^\[(\d+),(\d+)\](.*)$\<close>: groups 1 to 3 of \<^verbatim>\<open>FindStringSubmatch\<close>.\<close>

definition yrcLineRe :: "string \<Rightarrow> (string \<times> string \<times> string) option" where
  "yrcLineRe line =
     (case pairAt (CHR ''['') (CHR '']'') line of
        None \<Rightarrow> None
      | Some (d1, d2, rest) \<Rightarrow>
          if CHR 0x0A \<in> set rest then None else Some (d1, d2, rest))"

lemma digitsThen_shorter: "digitsThen c s = Some (ds, r) \<Longrightarrow> length r < length s"
proof -
  assume a: "digitsThen c s = Some (ds, r)"
  have l: "length (dropWhile isDigit s) \<le> length s" by (rule length_dropWhile_le)
  from a have "dropWhile isDigit s \<noteq> []" and "r = tl (dropWhile isDigit s)"
    by (auto simp: digitsThen_def Let_def split: if_splits)
  with l show ?thesis by (cases "dropWhile isDigit s") auto
qed

lemma pairAt_shorter: "pairAt opn cls s = Some (d1, d2, rest) \<Longrightarrow> length rest < length s"
  by (auto simp: pairAt_def split: list.splits if_splits option.splits
           dest!: digitsThen_shorter)

text \<open>
  \<^verbatim>\<open>wordInfoRe = (.*?)\((\d+),(\d+)\)\<close> under \<^verbatim>\<open>FindAllStringSubmatch(content, -1)\<close>: the
  successive non-overlapping matches, left to right. The lazy \<^verbatim>\<open>(.*?)\<close> takes the bytes
  from the end of the previous match (or from after the last line feed) up to the first
  place where \<^verbatim>\<open>(digits,digits)\<close> stands. \<open>wordInfoRe_scan text s\<close> has read \<open>text\<close> for
  group 1 and looks at the remaining \<open>s\<close>.
\<close>

function wordInfoRe_scan :: "string \<Rightarrow> string \<Rightarrow> (string \<times> string \<times> string) list" where
  "wordInfoRe_scan text s =
     (case pairAt (CHR ''('') (CHR '')'') s of
        Some (d1, d2, rest) \<Rightarrow> (text, d1, d2) # wordInfoRe_scan [] rest
      | None \<Rightarrow>
          (case s of
             [] \<Rightarrow> []
           | c # cs \<Rightarrow>
               if c = CHR 0x0A then wordInfoRe_scan [] cs
               else wordInfoRe_scan (text @ [c]) cs))"
  by pat_completeness auto
termination
  by (relation "measure (\<lambda>(text, s). length s)") (auto dest: pairAt_shorter)

declare wordInfoRe_scan.simps [simp del]

definition wordInfoRe_FindAll :: "string \<Rightarrow> (string \<times> string \<times> string) list" where
  "wordInfoRe_FindAll content = wordInfoRe_scan [] content"

text \<open>\<^verbatim>\<open>lrcTimeRe = ^\[(\d{2}):(\d{2})\.(\d{2,3})\](.*)$\<close>: groups 1 to 4.\<close>

definition lrcTimeRe :: "string \<Rightarrow> (string \<times> string \<times> string \<times> string) option" where
  "lrcTimeRe line =
     (case line of
        b # m1 # m2 # c # s1 # s2 # d # f1 # f2 # r \<Rightarrow>
          if b = CHR ''['' \<and> isDigit m1 \<and> isDigit m2 \<and> c = CHR '':'' \<and>
             isDigit s1 \<and> isDigit s2 \<and> d = CHR ''.'' \<and> isDigit f1 \<and> isDigit f2
          then (case r of
                  [] \<Rightarrow> None
                | x # rest \<Rightarrow>
                    if x = CHR '']'' then
                      (if CHR 0x0A \<in> set rest then None
                       else Some ([m1, m2], [s1, s2], [f1, f2], rest))
                    else if isDigit x then
                      (case rest of
                         [] \<Rightarrow> None
                       | y # rest' \<Rightarrow>
                           if y = CHR '']'' \<and> CHR 0x0A \<notin> set rest'
                           then Some ([m1, m2], [s1, s2], [f1, f2, x], rest')
                           else None)
                    else None)
          else None
      | _ \<Rightarrow> None)"

text \<open>
  \<^verbatim>\<open>metaRe = ^\[(ti|ar|al|by|offset|kana|re|ve):(.*?)\]$\<close>: groups 1 and 2. The closing
  bracket is the last byte of the text, so group 2 is all that stands between the colon
  and it.
\<close>

definition metaKeys :: "string list" where
  "metaKeys = [''ti'', ''ar'', ''al'', ''by'', ''offset'', ''kana'', ''re'', ''ve'']"

definition metaRe :: "string \<Rightarrow> (string \<times> string) option" where
  "metaRe line =
     (case find (\<lambda>k. HasPrefix line (''['' @ k @ '':'')) metaKeys of
        None \<Rightarrow> None
      | Some k \<Rightarrow>
          (let v = drop (length k + 2) line
           in if v \<noteq> [] \<and> last v = CHR '']'' \<and> CHR 0x0A \<notin> set v
              then Some (k, butlast v) else None))"

section \<open>The data model\<close>

text \<open>
  The structs of the source. \<open>WStartTime\<close> is \<^verbatim>\<open>WordInfo.StartTime\<close> and \<open>DStartTime\<close>,
  \<open>DEndTime\<close> are \<^verbatim>\<open>DivInfo.StartTime\<close>, \<^verbatim>\<open>DivInfo.EndTime\<close>: three structs of the source
  share these field names. A \<^verbatim>\<open>*LineInfo\<close> is never written after it is built, so the
  pointer is the value.
\<close>

record WordInfo =
  Text :: string
  WStartTime :: int
  Duration :: int

record LineInfo =
  Words :: "WordInfo list"
  StartTime :: int
  EndTime :: int

record DivInfo =
  DStartTime :: int
  DEndTime :: int
  Lines :: "LineInfo list"

record MetaLine =
  Time :: int
  Content :: string

datatype error =
  InvalidYrcLine string
  | NoValidYrcLines

section \<open>The YRC parser\<close>

definition isMetadataLine :: "string \<Rightarrow> bool" where
  "isMetadataLine line =
     (HasPrefix line ''[ti:'' \<or> HasPrefix line ''[ar:'' \<or> HasPrefix line ''[al:'' \<or>
      HasPrefix line ''[by:'' \<or> HasPrefix line ''[offset:'' \<or> HasPrefix line ''[kana:'' \<or>
      HasPrefix line ''[re:'' \<or> HasPrefix line ''[ve:'')"

text \<open>
  The loop of \<^verbatim>\<open>parseYrcLine\<close> over the word matches; \<open>ws\<close> is \<^verbatim>\<open>lineInfo.Words\<close> so far.
  A match of duration 0 is set to 1 when its text is not blank and skipped (\<^verbatim>\<open>continue\<close>)
  when it is.
\<close>

fun yrcWords :: "(string \<times> string \<times> string) list \<Rightarrow> WordInfo list \<Rightarrow> WordInfo list" where
  "yrcWords [] ws = ws"
| "yrcWords ((text, m2, m3) # ms) ws =
     (let wordStartTime = Atoi m2; wordDuration = Atoi m3
      in if wordDuration = 0 then
           (if TrimSpace text \<noteq> [] then
              yrcWords ms (ws @ [\<lparr>Text = text, WStartTime = wordStartTime, Duration = 1\<rparr>])
            else yrcWords ms ws)
         else
           yrcWords ms (ws @ [\<lparr>Text = text, WStartTime = wordStartTime, Duration = wordDuration\<rparr>]))"

definition parseYrcLine :: "string \<Rightarrow> error + LineInfo" where
  "parseYrcLine line =
     (case yrcLineRe line of
        None \<Rightarrow> Inl (InvalidYrcLine line)
      | Some (m1, m2, content) \<Rightarrow>
          (let startTime = Atoi m1;
               duration = Atoi m2;
               lineInfo = \<lparr>Words = [], StartTime = startTime, EndTime = add64 startTime duration\<rparr>;
               words = yrcWords (wordInfoRe_FindAll content) (Words lineInfo)
           in if words = [] \<and> content \<noteq> [] then
                Inr (lineInfo\<lparr>Words := words @
                       [\<lparr>Text = content, WStartTime = startTime,
                         Duration = (if duration = 0 then 1 else duration)\<rparr>]\<rparr>)
              else Inr (lineInfo\<lparr>Words := words\<rparr>)))"

text \<open>The loop of \<^verbatim>\<open>parseYrcToLines\<close>; \<open>parsedLines\<close> is the slice built so far.\<close>

fun parseYrcToLines_loop :: "string list \<Rightarrow> LineInfo list \<Rightarrow> LineInfo list" where
  "parseYrcToLines_loop [] parsedLines = parsedLines"
| "parseYrcToLines_loop (line # lines) parsedLines =
     (if \<not> HasPrefix line ''['' \<or> isMetadataLine line then
        parseYrcToLines_loop lines parsedLines
      else (case parseYrcLine line of
              Inl err \<Rightarrow> parseYrcToLines_loop lines parsedLines
            | Inr lineInfo \<Rightarrow>
                if Words lineInfo = [] then parseYrcToLines_loop lines parsedLines
                else parseYrcToLines_loop lines (parsedLines @ [lineInfo])))"

definition parseYrcToLines :: "string \<Rightarrow> LineInfo list" where
  "parseYrcToLines yrcContent = parseYrcToLines_loop (Split yrcContent) []"

section \<open>The time codec\<close>

text \<open>
  \<^verbatim>\<open>fmt.Sprintf\<close> with the verbs \<^verbatim>\<open>%d\<close>, \<^verbatim>\<open>%02d\<close> and \<^verbatim>\<open>%03d\<close>: the decimal digits of
  the number, padded with zeros on the left up to the width; a minus sign counts towards
  the width. A number with more digits than the width is printed in full.
\<close>

definition digitChar :: "nat \<Rightarrow> char" where
  "digitChar d = ''0123456789'' ! d"

function natDigits :: "nat \<Rightarrow> string" where
  "natDigits n = (if n < 10 then [digitChar n] else natDigits (n div 10) @ [digitChar (n mod 10)])"
  by pat_completeness auto
termination
  by (relation "measure id") auto

declare natDigits.simps [simp del]

definition fmtInt0 :: "nat \<Rightarrow> int \<Rightarrow> string" where
  "fmtInt0 width x =
     (if x < 0 then
        ''-'' @ replicate (width - 1 - length (natDigits (nat (- x)))) (CHR ''0'') @ natDigits (nat (- x))
      else replicate (width - length (natDigits (nat x))) (CHR ''0'') @ natDigits (nat x))"

definition fmtInt :: "int \<Rightarrow> string" where
  "fmtInt x = fmtInt0 0 x"

definition msToLrcTime :: "int \<Rightarrow> string" where
  "msToLrcTime ms =
     (let seconds = quo64 ms 1000;
          milliseconds = quo64 (rem64 ms 1000) 10;
          minutes = quo64 seconds 60;
          seconds = rem64 seconds 60
      in ''['' @ fmtInt0 2 minutes @ '':'' @ fmtInt0 2 seconds @ ''.'' @ fmtInt0 2 milliseconds @ '']'')"

definition msToEnhancedLrcTime :: "int \<Rightarrow> string" where
  "msToEnhancedLrcTime ms =
     (let seconds = quo64 ms 1000;
          milliseconds = quo64 (rem64 ms 1000) 10;
          minutes = quo64 seconds 60;
          seconds = rem64 seconds 60
      in ''<'' @ fmtInt0 2 minutes @ '':'' @ fmtInt0 2 seconds @ ''.'' @ fmtInt0 2 milliseconds @ ''>'')"

definition msToTtmlTime :: "int \<Rightarrow> string" where
  "msToTtmlTime ms0 =
     (let hours = quo64 ms0 3600000;
          ms = rem64 ms0 3600000;
          minutes = quo64 ms 60000;
          ms = rem64 ms 60000;
          seconds = quo64 ms 1000;
          milliseconds = rem64 ms 1000
      in if hours > 0 then
           fmtInt0 2 hours @ '':'' @ fmtInt0 2 minutes @ '':'' @ fmtInt0 2 seconds @ ''.'' @
           fmtInt0 3 milliseconds
         else fmtInt0 2 minutes @ '':'' @ fmtInt0 2 seconds @ ''.'' @ fmtInt0 3 milliseconds)"

text \<open>
  The decoding of an LRC time stamp from groups 1 to 3 of \<open>lrcTimeRe\<close>. The source has this
  block twice, word for word: in \<^verbatim>\<open>parseLrcTimedLines\<close> (lines 259 to 271) and in
  \<^verbatim>\<open>mergeLrcWithTranslation\<close> (lines 316 to 326).
\<close>

definition lrcTotalMs :: "string \<Rightarrow> string \<Rightarrow> string \<Rightarrow> int" where
  "lrcTotalMs m1 m2 msStr =
     (let minutes = Atoi m1;
          seconds = Atoi m2;
          milliseconds = (if length msStr = 2 then mul64 (Atoi msStr) 10 else Atoi msStr)
      in add64 (add64 (mul64 (mul64 minutes 60) 1000) (mul64 seconds 1000)) milliseconds)"

section \<open>The LRC timeline parser\<close>

text \<open>The two watermark substrings of the source, in UTF-8.\<close>

definition watermarkQQ :: string where
  "watermarkQQ = ''QQ'' @ [CHR 0xE9, CHR 0x9F, CHR 0xB3, CHR 0xE4, CHR 0xB9, CHR 0x90]"

definition watermarkMade :: string where
  "watermarkMade = [CHR 0xE5, CHR 0x88, CHR 0xB6, CHR 0xE4, CHR 0xBD, CHR 0x9C]"

text \<open>The loop of \<^verbatim>\<open>parseLrcTimedLines\<close>; \<open>timedLines\<close> is the slice built so far.\<close>

fun parseLrcTimedLines_loop :: "string list \<Rightarrow> MetaLine list \<Rightarrow> MetaLine list" where
  "parseLrcTimedLines_loop [] timedLines = timedLines"
| "parseLrcTimedLines_loop (line0 # lines) timedLines =
     (let line = TrimSpace line0
      in if line = [] then parseLrcTimedLines_loop lines timedLines
         else (case lrcTimeRe line of
                 None \<Rightarrow> parseLrcTimedLines_loop lines timedLines
               | Some (m1, m2, msStr, m4) \<Rightarrow>
                   (let totalMs = lrcTotalMs m1 m2 msStr;
                        content = TrimSpace m4
                    in if content \<noteq> [] \<and> content \<noteq> ''//'' \<and>
                          \<not> Contains content watermarkQQ \<and> \<not> Contains content watermarkMade
                       then parseLrcTimedLines_loop lines
                              (timedLines @ [\<lparr>Time = totalMs, Content = content\<rparr>])
                       else parseLrcTimedLines_loop lines timedLines)))"

text \<open>
  \<^verbatim>\<open>sort.Slice(timedLines, func(i, j int) bool { return timedLines[i].Time < timedLines[j].Time })\<close>
  is a call into Go's standard library, whose documentation promises a sorted
  rearrangement and says that the sort is not guaranteed to be stable. The library
  function is the parameter \<open>sortSlice\<close> of every function that reaches it, and
  \<open>sortSliceContract\<close> is what the library promises of it. \<open>stableSortSlice\<close> is one
  function within the contract (an insertion sort that keeps ties in order), and
  \<open>reversingSortSlice\<close> is another (it puts ties in reverse order).
\<close>

definition sortSliceContract :: "(MetaLine list \<Rightarrow> MetaLine list) \<Rightarrow> bool" where
  "sortSliceContract sortSlice =
     (\<forall>xs. mset (sortSlice xs) = mset xs \<and> sorted (map Time (sortSlice xs)))"

definition stableSortSlice :: "MetaLine list \<Rightarrow> MetaLine list" where
  "stableSortSlice xs = sort_key Time xs"

definition reversingSortSlice :: "MetaLine list \<Rightarrow> MetaLine list" where
  "reversingSortSlice xs = sort_key Time (rev xs)"

definition parseLrcTimedLines :: "(MetaLine list \<Rightarrow> MetaLine list) \<Rightarrow> string \<Rightarrow> MetaLine list" where
  "parseLrcTimedLines sortSlice lrcContent =
     (if TrimSpace lrcContent = [] then []
      else sortSlice (parseLrcTimedLines_loop (Split lrcContent) []))"

section \<open>The line matchers\<close>

text \<open>
  The loop of \<^verbatim>\<open>findClosestLine\<close>: \<open>i\<close> is the index of the first of the remaining lines,
  the state is \<^verbatim>\<open>(bestIndex, minDiff)\<close>.
\<close>

fun findClosestLine_loop :: "int \<Rightarrow> MetaLine list \<Rightarrow> int \<Rightarrow> int \<times> int \<Rightarrow> int \<times> int" where
  "findClosestLine_loop time [] i st = st"
| "findClosestLine_loop time (line # lines) i (bestIndex, minDiff) =
     (let timeDiff = abs_go (sub64 (Time line) time)
      in if timeDiff < minDiff then findClosestLine_loop time lines (i + 1) (i, timeDiff)
         else findClosestLine_loop time lines (i + 1) (bestIndex, minDiff))"

definition findClosestLine :: "int \<Rightarrow> MetaLine list \<Rightarrow> string" where
  "findClosestLine time lines =
     (let maxTimeDiff = 500;
          (bestIndex, minDiff) = findClosestLine_loop time lines 0 (- 1, maxTimeDiff)
      in if bestIndex \<noteq> - 1 then Content (lines ! nat bestIndex) else [])"

text \<open>\<^verbatim>\<open>matchRomajiLine\<close>: the pointer it returns is \<open>Some\<close> line, \<^verbatim>\<open>nil\<close> is \<open>None\<close>.\<close>

fun matchRomajiLine :: "int \<Rightarrow> LineInfo list \<Rightarrow> LineInfo option" where
  "matchRomajiLine mainLineTime [] = None"
| "matchRomajiLine mainLineTime (romaLine # romajiLines) =
     (let maxTimeDiff = 100;
          timeDiff = abs_go (sub64 (StartTime romaLine) mainLineTime)
      in if timeDiff \<le> maxTimeDiff then Some romaLine
         else matchRomajiLine mainLineTime romajiLines)"

section \<open>The merged LRC\<close>

definition LF :: string where
  "LF = [CHR 0x0A]"

text \<open>The loop of \<^verbatim>\<open>mergeLrcWithTranslation\<close>; \<open>result\<close> is the \<^verbatim>\<open>strings.Builder\<close>.\<close>

fun mergeLrcWithTranslation_loop :: "MetaLine list \<Rightarrow> string list \<Rightarrow> string \<Rightarrow> string" where
  "mergeLrcWithTranslation_loop translations [] result = result"
| "mergeLrcWithTranslation_loop translations (line0 # lines) result =
     (let line = TrimSpace line0
      in if line = [] then mergeLrcWithTranslation_loop translations lines result
         else
           (let result = result @ line @ LF
            in if isMetadataLine line then mergeLrcWithTranslation_loop translations lines result
               else (case lrcTimeRe line of
                       None \<Rightarrow> mergeLrcWithTranslation_loop translations lines result
                     | Some (m1, m2, msStr, m4) \<Rightarrow>
                         (let totalMs = lrcTotalMs m1 m2 msStr;
                              transText = findClosestLine totalMs translations
                          in if transText \<noteq> [] then
                               mergeLrcWithTranslation_loop translations lines
                                 (result @ msToLrcTime totalMs @ transText @ LF)
                             else mergeLrcWithTranslation_loop translations lines result))))"

definition mergeLrcWithTranslation ::
    "(MetaLine list \<Rightarrow> MetaLine list) \<Rightarrow> string \<Rightarrow> string \<Rightarrow> string" where
  "mergeLrcWithTranslation sortSlice originalLrc transLrc =
     (if TrimSpace transLrc = [] then originalLrc
      else mergeLrcWithTranslation_loop (parseLrcTimedLines sortSlice transLrc)
             (Split originalLrc) [])"

section \<open>The paragraph grouper and the duration estimator\<close>

text \<open>
  The end of a line's content, which the source computes in place wherever it needs it
  (lines 355 to 360, 366 to 371, 385 to 390, 404 to 414, 466 to 471): the end of the last
  word when the line has words, the line's \<^verbatim>\<open>EndTime\<close> otherwise.
\<close>

definition contentEndTime :: "LineInfo \<Rightarrow> int" where
  "contentEndTime line =
     (if length (Words line) > 0 then
        (let lastWord = last (Words line) in add64 (WStartTime lastWord) (Duration lastWord))
      else EndTime line)"

text \<open>
  The loop of \<^verbatim>\<open>groupLinesIntoDivs\<close> from \<^verbatim>\<open>i = 1\<close>: \<open>prevLine\<close> is \<^verbatim>\<open>lines[i-1]\<close>, the list
  is \<^verbatim>\<open>lines[i:]\<close>, the state is \<^verbatim>\<open>(divs, currentDiv)\<close>. A fresh \<^verbatim>\<open>DivInfo\<close> has
  \<^verbatim>\<open>EndTime\<close> 0 until it is closed.
\<close>

fun groupLinesIntoDivs_loop ::
    "int \<Rightarrow> LineInfo \<Rightarrow> LineInfo list \<Rightarrow> DivInfo list \<times> DivInfo \<Rightarrow> DivInfo list \<times> DivInfo" where
  "groupLinesIntoDivs_loop maxGap prevLine [] st = st"
| "groupLinesIntoDivs_loop maxGap prevLine (line # lines) (divs, currentDiv) =
     (let prevContentEndTime = contentEndTime prevLine;
          gap = sub64 (StartTime line) prevContentEndTime
      in if gap > maxGap then
           groupLinesIntoDivs_loop maxGap line lines
             (divs @ [currentDiv\<lparr>DEndTime := contentEndTime (last (Lines currentDiv))\<rparr>],
              \<lparr>DStartTime = StartTime line, DEndTime = 0, Lines = [line]\<rparr>)
         else
           groupLinesIntoDivs_loop maxGap line lines
             (divs, currentDiv\<lparr>Lines := Lines currentDiv @ [line]\<rparr>))"

definition groupLinesIntoDivs :: "LineInfo list \<Rightarrow> int \<Rightarrow> DivInfo list" where
  "groupLinesIntoDivs lines maxGap =
     (case lines of
        [] \<Rightarrow> []
      | line0 # rest \<Rightarrow>
          (let (divs, currentDiv) =
                 groupLinesIntoDivs_loop maxGap line0 rest
                   ([], \<lparr>DStartTime = StartTime line0, DEndTime = 0, Lines = [line0]\<rparr>)
           in if length (Lines currentDiv) > 0 then
                divs @ [currentDiv\<lparr>DEndTime := contentEndTime (last (Lines currentDiv))\<rparr>]
              else divs))"

fun calculateSongDuration_loop :: "LineInfo list \<Rightarrow> int \<Rightarrow> int" where
  "calculateSongDuration_loop [] maxEndTime = maxEndTime"
| "calculateSongDuration_loop (line # lines) maxEndTime =
     (if contentEndTime line > maxEndTime
      then calculateSongDuration_loop lines (contentEndTime line)
      else calculateSongDuration_loop lines maxEndTime)"

definition calculateSongDuration :: "LineInfo list \<Rightarrow> int" where
  "calculateSongDuration lines =
     (if lines = [] then 0 else add64 (calculateSongDuration_loop lines 0) 1000)"

section \<open>The TTML and enhanced LRC writers\<close>

text \<open>
  The upstream payload. \<^verbatim>\<open>LyricData.Data\<close> is flattened: \<open>Lrc\<close>, \<open>Trans\<close>, \<open>Yrc\<close> and \<open>Roma\<close>
  are \<^verbatim>\<open>data.Data.Lrc\<close> and so on.
\<close>

record LyricData =
  Code :: int
  Message :: string
  Lrc :: string
  Trans :: string
  Yrc :: string
  Roma :: string

text \<open>
  The double quote, written \<^verbatim>\<open>\"\<close> in the format strings of the source. The builder
  \<open>sb\<close> of \<^verbatim>\<open>convertYrcToTtml\<close> comes from a pool and is reset when it is taken
  (\<^verbatim>\<open>getTTMLBuilder\<close>), so it starts empty.
\<close>

definition DQ :: string where
  "DQ = [CHR 0x22]"

text \<open>The loop over \<^verbatim>\<open>line.Words\<close> (lines 476 to 480); \<open>sb\<close> is the builder.\<close>

fun ttmlWordSpans :: "WordInfo list \<Rightarrow> string \<Rightarrow> string" where
  "ttmlWordSpans [] sb = sb"
| "ttmlWordSpans (word # words) sb =
     (let wordBegin = msToTtmlTime (WStartTime word);
          wordEnd = msToTtmlTime (add64 (WStartTime word) (Duration word))
      in ttmlWordSpans words
           (sb @ ''                <span begin='' @ DQ @ wordBegin @ DQ @ '' end='' @ DQ @ wordEnd @ DQ @
              ''>'' @ Text word @ ''</span>'' @ LF))"

text \<open>The loop over \<^verbatim>\<open>romaLine.Words\<close> (lines 491 to 497); the state is \<^verbatim>\<open>(hasContent, romaBuilder)\<close>.\<close>

fun romaWords :: "WordInfo list \<Rightarrow> bool \<times> string \<Rightarrow> bool \<times> string" where
  "romaWords [] st = st"
| "romaWords (word # words) (hasContent, romaBuilder) =
     (let trimmed = TrimSpace (Text word)
      in if trimmed \<noteq> [] then romaWords words (True, romaBuilder @ Text word)
         else romaWords words (hasContent, romaBuilder))"

text \<open>The loop over \<^verbatim>\<open>div.Lines\<close> (lines 462 to 508); the state is \<^verbatim>\<open>(sb, lineCounter)\<close>.\<close>

fun ttmlLines ::
    "MetaLine list \<Rightarrow> LineInfo list \<Rightarrow> LineInfo list \<Rightarrow> string \<times> int \<Rightarrow> string \<times> int" where
  "ttmlLines translations parsedRomaji [] st = st"
| "ttmlLines translations parsedRomaji (line # lines) (sb, lineCounter) =
     (let lineBegin = msToTtmlTime (StartTime line);
          pTagEndTime = contentEndTime line;
          pTagEndTimeStr = msToTtmlTime pTagEndTime;
          sb = sb @ ''            <p begin='' @ DQ @ lineBegin @ DQ @ '' end='' @ DQ @ pTagEndTimeStr @ DQ @
                 '' ttm:agent='' @ DQ @ ''v1'' @ DQ @ '' itunes:key='' @ DQ @ ''L'' @ fmtInt lineCounter @
                 DQ @ ''>'' @ LF;
          sb = ttmlWordSpans (Words line) sb;
          transText = findClosestLine (StartTime line) translations;
          sb = (if transText \<noteq> [] then
                  sb @ ''                <span ttm:role='' @ DQ @ ''x-translation'' @ DQ @ '' xml:lang='' @
                    DQ @ ''zh-CN'' @ DQ @ ''>'' @ transText @ ''</span>'' @ LF
                else sb);
          sb = (case matchRomajiLine (StartTime line) parsedRomaji of
                  None \<Rightarrow> sb
                | Some romaLine \<Rightarrow>
                    (let (hasContent, romaBuilder) = romaWords (Words romaLine) (False, [])
                     in if hasContent then
                          (let romaText = TrimSpace romaBuilder
                           in if romaText \<noteq> [] then
                                sb @ ''                <span ttm:role='' @ DQ @ ''x-roman'' @ DQ @ ''>'' @
                                  romaText @ ''</span>'' @ LF
                              else sb)
                        else sb));
          sb = sb @ ''            </p>'' @ LF
      in ttmlLines translations parsedRomaji lines (sb, add64 lineCounter 1))"

text \<open>
  The loop over \<^verbatim>\<open>divs\<close> (lines 456 to 514): \<open>n\<close> is \<^verbatim>\<open>len(divs)\<close>, \<open>divIdx\<close> the index of
  the first of the remaining paragraphs.
\<close>

fun ttmlDivs ::
    "MetaLine list \<Rightarrow> LineInfo list \<Rightarrow> nat \<Rightarrow> DivInfo list \<Rightarrow> nat \<Rightarrow> string \<times> int \<Rightarrow> string \<times> int" where
  "ttmlDivs translations parsedRomaji n [] divIdx st = st"
| "ttmlDivs translations parsedRomaji n (d # divs) divIdx (sb, lineCounter) =
     (let divBegin = msToTtmlTime (DStartTime d);
          divEnd = msToTtmlTime (DEndTime d);
          sb = sb @ ''        <div begin='' @ DQ @ divBegin @ DQ @ '' end='' @ DQ @ divEnd @ DQ @ ''>'' @ LF;
          (sb, lineCounter) = ttmlLines translations parsedRomaji (Lines d) (sb, lineCounter);
          sb = sb @ ''        </div>'' @ LF;
          sb = (if int divIdx < int n - 1 then sb @ LF else sb)
      in ttmlDivs translations parsedRomaji n divs (divIdx + 1) (sb, lineCounter))"

definition convertYrcToTtml :: "(MetaLine list \<Rightarrow> MetaLine list) \<Rightarrow> LyricData \<Rightarrow> error + string" where
  "convertYrcToTtml sortSlice data =
     (let translations = parseLrcTimedLines sortSlice (Trans data);
          parsedLines = parseYrcToLines (Yrc data);
          parsedRomaji = parseYrcToLines (Roma data)
      in if length parsedLines = 0 then Inl NoValidYrcLines
         else
           (let sb = ''<?xml version='' @ DQ @ ''1.0'' @ DQ @ '' encoding='' @ DQ @ ''UTF-8'' @ DQ @ ''?>'' @ LF;
                sb = sb @ ''<tt xmlns='' @ DQ @ ''http://www.w3.org/ns/ttml'' @ DQ @
                       '' xmlns:ttm='' @ DQ @ ''http://www.w3.org/ns/ttml#metadata'' @ DQ @
                       '' xmlns:itunes='' @ DQ @ ''http://music.apple.com/lyric-ttml-internal'' @ DQ @
                       '' itunes:timing='' @ DQ @ ''Word'' @ DQ @ ''>'' @ LF;
                sb = sb @ ''    <head>'' @ LF @ ''        <metadata>'' @ LF;
                sb = sb @ ''            <ttm:agent type='' @ DQ @ ''person'' @ DQ @ '' xml:id='' @ DQ @ ''v1'' @
                       DQ @ ''/>'' @ LF;
                sb = sb @ ''        </metadata>'' @ LF @ ''    </head>'' @ LF;
                songDuration = calculateSongDuration parsedLines;
                songDurationStr = msToTtmlTime songDuration;
                divs = groupLinesIntoDivs parsedLines 1000;
                sb = sb @ ''    <body dur='' @ DQ @ songDurationStr @ DQ @ ''>'' @ LF;
                (sb, lineCounter) = ttmlDivs translations parsedRomaji (length divs) divs 0 (sb, 1);
                sb = sb @ ''    </body>'' @ LF @ ''</tt>'' @ LF
            in Inr sb))"

text \<open>
  \<^verbatim>\<open>parseLrcMeta\<close> builds a \<^verbatim>\<open>map[string]string\<close>: here the list of its entries, one per
  key, where a later value for a key replaces the earlier one.
\<close>

fun mapPut :: "string \<Rightarrow> string \<Rightarrow> (string \<times> string) list \<Rightarrow> (string \<times> string) list" where
  "mapPut k v [] = [(k, v)]"
| "mapPut k v ((k', v') # m) = (if k = k' then (k, v) # m else (k', v') # mapPut k v m)"

fun parseLrcMeta_loop :: "string list \<Rightarrow> (string \<times> string) list \<Rightarrow> (string \<times> string) list" where
  "parseLrcMeta_loop [] meta = meta"
| "parseLrcMeta_loop (line # lines) meta =
     (case metaRe line of
        Some (m1, m2) \<Rightarrow> parseLrcMeta_loop lines (mapPut (TrimSpace m1) (TrimSpace m2) meta)
      | None \<Rightarrow> parseLrcMeta_loop lines meta)"

definition parseLrcMeta :: "string \<Rightarrow> (string \<times> string) list" where
  "parseLrcMeta lrcContent = parseLrcMeta_loop (Split lrcContent) []"

text \<open>The loop \<^verbatim>\<open>for key, value := range meta\<close> over the entries in the order it visits them.\<close>

fun eslrcMeta :: "(string \<times> string) list \<Rightarrow> string \<Rightarrow> string" where
  "eslrcMeta [] result = result"
| "eslrcMeta ((key, value) # kvs) result =
     (if key \<noteq> ''kana'' then eslrcMeta kvs (result @ ''['' @ key @ '':'' @ value @ '']'' @ LF)
      else eslrcMeta kvs result)"

fun eslrcWords :: "WordInfo list \<Rightarrow> string \<Rightarrow> string" where
  "eslrcWords [] result = result"
| "eslrcWords (word # words) result =
     eslrcWords words (result @ msToEnhancedLrcTime (WStartTime word) @ Text word)"

text \<open>The loop over \<^verbatim>\<open>rawLines\<close> of \<^verbatim>\<open>convertYrcToEnhancedLrc\<close> (lines 536 to 570).\<close>

fun eslrcLines :: "MetaLine list \<Rightarrow> bool \<Rightarrow> string list \<Rightarrow> string \<Rightarrow> string" where
  "eslrcLines translations hasTranslation [] result = result"
| "eslrcLines translations hasTranslation (line0 # lines) result =
     (let line = TrimSpace line0
      in if line = [] \<or> isMetadataLine line then
           eslrcLines translations hasTranslation lines result
         else
           (case parseYrcLine line of
              Inl err \<Rightarrow> eslrcLines translations hasTranslation lines result
            | Inr lineInfo \<Rightarrow>
                if length (Words lineInfo) = 0 then
                  eslrcLines translations hasTranslation lines result
                else
                  (let mainTimestamp = msToLrcTime (StartTime lineInfo);
                       result = result @ mainTimestamp;
                       result = eslrcWords (Words lineInfo) result;
                       result =
                         (if length (Words lineInfo) > 0 then
                            (let lastWord = last (Words lineInfo)
                             in result @
                                msToEnhancedLrcTime (add64 (WStartTime lastWord) (Duration lastWord)))
                          else result);
                       result = result @ LF;
                       result =
                         (if hasTranslation then
                            (let translation = findClosestLine (StartTime lineInfo) translations
                             in if translation \<noteq> [] then result @ mainTimestamp @ translation @ LF
                                else result)
                          else result)
                   in eslrcLines translations hasTranslation lines result)))"

text \<open>
  The order in which \<^verbatim>\<open>range\<close> visits a Go map is not specified: \<open>rangeMap\<close>, a parameter,
  gives the entries in the order of the visit.
\<close>

definition convertYrcToEnhancedLrc ::
    "((string \<times> string) list \<Rightarrow> (string \<times> string) list) \<Rightarrow> (MetaLine list \<Rightarrow> MetaLine list) \<Rightarrow>
     string \<Rightarrow> string \<Rightarrow> string \<Rightarrow> string \<Rightarrow> error + string" where
  "convertYrcToEnhancedLrc rangeMap sortSlice yrcContent lrcContent transContent romaContent =
     (let meta = parseLrcMeta lrcContent;
          result = eslrcMeta (rangeMap meta) [];
          translations = parseLrcTimedLines sortSlice transContent;
          hasTranslation = (length translations > 0)
      in Inr (eslrcLines translations hasTranslation (Split yrcContent) result))"

section \<open>The response builder\<close>

text \<open>
  \<^verbatim>\<open>UnifiedLyricResponse\<close>, flattened; \<open>RespCode\<close> and \<open>RespMessage\<close> are its \<^verbatim>\<open>Code\<close> and
  \<^verbatim>\<open>Message\<close>. A field the builder does not assign keeps Go's zero value, the empty string.
\<close>

record UnifiedLyricResponse =
  RespCode :: int
  RespMessage :: string
  Song :: string
  Singer :: string
  Album :: string
  LRC :: string
  ESLRC :: string
  TTML :: string

definition messageOK :: string where
  "messageOK = [CHR 0xE8, CHR 0xAF, CHR 0xB7, CHR 0xE6, CHR 0xB1, CHR 0x82,
                CHR 0xE6, CHR 0x88, CHR 0x90, CHR 0xE5, CHR 0x8A, CHR 0x9F]"

text \<open>The closure \<^verbatim>\<open>buildResponse\<close> of \<^verbatim>\<open>lyricHandler\<close> (lines 763 to 793); logging is left out.\<close>

definition buildResponse ::
    "((string \<times> string) list \<Rightarrow> (string \<times> string) list) \<Rightarrow> (MetaLine list \<Rightarrow> MetaLine list) \<Rightarrow>
     string \<Rightarrow> string \<Rightarrow> string \<Rightarrow> LyricData \<Rightarrow> UnifiedLyricResponse" where
  "buildResponse rangeMap sortSlice song singer album data =
     (let resp = \<lparr>RespCode = 200, RespMessage = messageOK, Song = song, Singer = singer,
                  Album = album, LRC = [], ESLRC = [], TTML = []\<rparr>;
          resp = resp\<lparr>LRC := mergeLrcWithTranslation sortSlice (Lrc data) (Trans data)\<rparr>
      in if Yrc data \<noteq> [] then
           (let resp = (case convertYrcToTtml sortSlice data of
                          Inr ttml \<Rightarrow> resp\<lparr>TTML := ttml\<rparr>
                        | Inl err \<Rightarrow> resp);
                resp = (case convertYrcToEnhancedLrc rangeMap sortSlice
                               (Yrc data) (Lrc data) (Trans data) (Roma data) of
                          Inr eslrc \<Rightarrow> resp\<lparr>ESLRC := eslrc\<rparr>
                        | Inl err \<Rightarrow> resp)
            in resp)
         else resp)"

section \<open>Notions used in the statements\<close>

text \<open>
  The definitions of this section are not functions of the source: they name what the
  statements about the source speak of.
\<close>

text \<open>Groups 2 and 3 of a word match are non-empty runs of digits.\<close>

definition digitGroups :: "(string \<times> string \<times> string) \<Rightarrow> bool" where
  "digitGroups m = (case m of (t, a, b) \<Rightarrow> a \<noteq> [] \<and> list_all isDigit a \<and> b \<noteq> [] \<and> list_all isDigit b)"

text \<open>
  The statements below speak of the matches of a line in the words of the specification:
  a match is kept unless its duration is 0 and its text is blank; the word of a kept match
  has the match's text and start and its duration, 1 in place of 0; the whole-line word
  has the segment text, the header's start and the header's duration, 1 at least.
\<close>

definition keptMatch :: "string \<times> string \<times> string \<Rightarrow> bool" where
  "keptMatch m = (case m of (t, m2, m3) \<Rightarrow> \<not> (Atoi m3 = 0 \<and> TrimSpace t = []))"

definition wordOf :: "string \<times> string \<times> string \<Rightarrow> WordInfo" where
  "wordOf m =
     (case m of (t, m2, m3) \<Rightarrow>
        \<lparr>Text = t, WStartTime = Atoi m2, Duration = (if Atoi m3 = 0 then 1 else Atoi m3)\<rparr>)"

definition wholeLineWord :: "string \<Rightarrow> string \<Rightarrow> string \<Rightarrow> WordInfo" where
  "wholeLineWord m1 m2 content =
     \<lparr>Text = content, WStartTime = Atoi m1, Duration = max 1 (Atoi m2)\<rparr>"

text \<open>
  A time value is a Go \<^verbatim>\<open>int\<close> that is not negative. Every time the parsers produce is one
  (they are sums of \<^verbatim>\<open>strconv.Atoi\<close> of digit runs), and the difference of two time
  values does not overflow.
\<close>

definition timeValue :: "int \<Rightarrow> bool" where
  "timeValue t = (0 \<le> t \<and> t \<le> maxInt64)"

text \<open>The state of the loop after the lines \<open>pre\<close>, for the query time \<open>t\<close>.\<close>

definition closestSoFar :: "int \<Rightarrow> MetaLine list \<Rightarrow> int \<times> int \<Rightarrow> bool" where
  "closestSoFar t pre st =
     (case st of (bestIndex, minDiff) \<Rightarrow>
        (bestIndex = - 1 \<and> minDiff = 500 \<and> (\<forall>l\<in>set pre. 500 \<le> \<bar>Time l - t\<bar>)) \<or>
        (0 \<le> bestIndex \<and> nat bestIndex < length pre \<and>
         minDiff = \<bar>Time (pre ! nat bestIndex) - t\<bar> \<and> minDiff < 500 \<and>
         (\<forall>l\<in>set pre. minDiff \<le> \<bar>Time l - t\<bar>)))"

text \<open>
  \<open>gapBefore lines i\<close> is the gap the source computes for line \<open>i\<close>: its start minus the
  content end of line \<open>i - 1\<close>, in Go's arithmetic. \<open>startFlags\<close> marks, for each line of the
  paragraphs in order, whether it is the first line of its paragraph. \<open>closedDiv\<close> says that
  a paragraph has lines, starts where its first line starts and ends where the content of
  its last line ends.
\<close>

definition gapBefore :: "LineInfo list \<Rightarrow> nat \<Rightarrow> int" where
  "gapBefore lines i = sub64 (StartTime (lines ! i)) (contentEndTime (lines ! (i - 1)))"

definition startFlags :: "DivInfo list \<Rightarrow> bool list" where
  "startFlags ds = concat (map (\<lambda>d. True # replicate (length (Lines d) - 1) False) ds)"

definition closedDiv :: "DivInfo \<Rightarrow> bool" where
  "closedDiv d = (Lines d \<noteq> [] \<and> DStartTime d = StartTime (hd (Lines d)) \<and>
                  DEndTime d = contentEndTime (last (Lines d)))"

text \<open>The content end of a line as an integer, with no wrap-around.\<close>

definition exactContentEnd :: "LineInfo \<Rightarrow> int" where
  "exactContentEnd line =
     (if Words line \<noteq> [] then WStartTime (last (Words line)) + Duration (last (Words line))
      else EndTime line)"

text \<open>
  Decoding a time stamp: the line is matched against \<open>lrcTimeRe\<close> and its groups are turned
  into milliseconds by \<open>lrcTotalMs\<close>, as both callers do. Encoding is \<open>msToLrcTime\<close>.
\<close>

definition decodeLrcTime :: "string \<Rightarrow> int option" where
  "decodeLrcTime line =
     (case lrcTimeRe line of
        None \<Rightarrow> None
      | Some (m1, m2, msStr, m4) \<Rightarrow> Some (lrcTotalMs m1 m2 msStr))"

text \<open>The text whose lines are \<open>ls\<close>: the lines with a line feed between any two.\<close>

fun joinLF :: "string list \<Rightarrow> string" where
  "joinLF [] = []"
| "joinLF [l] = l"
| "joinLF (l # l' # ls) = l @ [CHR 0x0A] @ joinLF (l' # ls)"

text \<open>
  The entry a line contributes, in the words of the specification: the line, trimmed,
  matches the time stamp pattern, and its text, trimmed, is not empty, is not \<^verbatim>\<open>//\<close> and
  contains neither watermark.
\<close>

definition timedEntry :: "string \<Rightarrow> MetaLine option" where
  "timedEntry line0 =
     (case lrcTimeRe (TrimSpace line0) of
        None \<Rightarrow> None
      | Some (m1, m2, msStr, m4) \<Rightarrow>
          if TrimSpace m4 \<noteq> [] \<and> TrimSpace m4 \<noteq> ''//'' \<and>
             \<not> Contains (TrimSpace m4) watermarkQQ \<and> \<not> Contains (TrimSpace m4) watermarkMade
          then Some \<lparr>Time = lrcTotalMs m1 m2 msStr, Content = TrimSpace m4\<rparr>
          else None)"

text \<open>
  What one line of the original contributes to the merged text: nothing when it is blank,
  otherwise the trimmed line, a line feed and its translation line. The translation line
  of a line that is not metadata and decodes to \<open>ms\<close> is the label of \<open>ms\<close>, the text
  \<open>findClosestLine\<close> finds and a line feed, when it finds one.
\<close>

definition translationLine :: "MetaLine list \<Rightarrow> string \<Rightarrow> string" where
  "translationLine translations line =
     (if isMetadataLine line then []
      else (case decodeLrcTime line of
              None \<Rightarrow> []
            | Some ms \<Rightarrow>
                if findClosestLine ms translations \<noteq> []
                then msToLrcTime ms @ findClosestLine ms translations @ LF
                else []))"

definition mergedLine :: "MetaLine list \<Rightarrow> string \<Rightarrow> string" where
  "mergedLine translations line0 =
     (if TrimSpace line0 = [] then []
      else TrimSpace line0 @ LF @ translationLine translations (TrimSpace line0))"

section \<open>Digits and regular expression groups\<close>

lemma decVal_acc_nonneg:
  "0 \<le> acc \<Longrightarrow> list_all isDigit ds \<Longrightarrow> 0 \<le> foldl (\<lambda>acc c. acc * 10 + digitVal c) acc ds"
  by (induction ds arbitrary: acc) (auto simp: isDigit_def digitVal_def)

lemma decVal_nonneg: "list_all isDigit ds \<Longrightarrow> 0 \<le> decVal ds"
  by (simp add: decVal_def decVal_acc_nonneg)

lemma Atoi_digits: "ds \<noteq> [] \<Longrightarrow> list_all isDigit ds \<Longrightarrow> Atoi ds = min maxInt64 (decVal ds)"
  by (cases ds) (auto simp: Atoi_def isDigit_def)

lemma Atoi_digits_range:
  assumes "ds \<noteq> []" "list_all isDigit ds"
  shows "0 \<le> Atoi ds \<and> Atoi ds \<le> maxInt64"
  using assms decVal_nonneg[of ds] by (simp add: Atoi_digits maxInt64_def)

lemma digitsThen_digits:
  "digitsThen c s = Some (ds, r) \<Longrightarrow> ds \<noteq> [] \<and> list_all isDigit ds"
  by (auto simp: digitsThen_def Let_def list_all_iff split: if_splits dest: set_takeWhileD)

lemma pairAt_digits:
  "pairAt opn cls s = Some (d1, d2, rest) \<Longrightarrow>
     d1 \<noteq> [] \<and> list_all isDigit d1 \<and> d2 \<noteq> [] \<and> list_all isDigit d2"
  by (auto simp: pairAt_def split: list.splits if_splits option.splits dest: digitsThen_digits)

lemma wordInfoRe_scan_Nil: "wordInfoRe_scan t [] = []"
  by (subst wordInfoRe_scan.simps) (simp add: pairAt_def)

lemma wordInfoRe_scan_Some:
  "pairAt (CHR ''('') (CHR '')'') s = Some (d1, d2, rest) \<Longrightarrow>
     wordInfoRe_scan t s = (t, d1, d2) # wordInfoRe_scan [] rest"
  by (subst wordInfoRe_scan.simps) simp

lemma wordInfoRe_scan_None:
  "pairAt (CHR ''('') (CHR '')'') (c # cs) = None \<Longrightarrow>
     wordInfoRe_scan t (c # cs) =
       (if c = CHR 0x0A then wordInfoRe_scan [] cs else wordInfoRe_scan (t @ [c]) cs)"
  by (subst wordInfoRe_scan.simps) simp

lemma wordInfoRe_scan_digits:
  "m \<in> set (wordInfoRe_scan text s) \<Longrightarrow> digitGroups m"
proof (induction "text" s rule: wordInfoRe_scan.induct)
  case (1 t s)
  show ?case
  proof (cases "pairAt (CHR ''('') (CHR '')'') s")
    case None
    show ?thesis
    proof (cases s)
      case Nil
      with "1.prems" show ?thesis by (simp add: wordInfoRe_scan_Nil)
    next
      case (Cons c cs)
      with None "1.prems" "1.IH"(1,2)[OF None Cons] show ?thesis
        by (simp add: wordInfoRe_scan_None split: if_splits)
    qed
  next
    case (Some p)
    obtain d1 d2 rest where p: "p = (d1, d2, rest)" by (cases p) auto
    from Some p "1.prems" have "m = (t, d1, d2) \<or> m \<in> set (wordInfoRe_scan [] rest)"
      by (simp add: wordInfoRe_scan_Some)
    then show ?thesis
      using "1.IH"(3)[OF Some p[symmetric] refl] pairAt_digits[OF Some[unfolded p]]
      by (auto simp: digitGroups_def)
  qed
qed

section \<open>Properties of the YRC parser\<close>

lemma yrcWords_eq: "yrcWords ms ws = ws @ map wordOf (filter keptMatch ms)"
proof (induction ms arbitrary: ws)
  case Nil
  show ?case by simp
next
  case (Cons m ms)
  obtain t m2 m3 where m: "m = (t, m2, m3)" by (cases m) auto
  show ?case
    unfolding m by (simp add: Cons.IH keptMatch_def wordOf_def Let_def)
qed

lemma wordOf_duration: "digitGroups m \<Longrightarrow> 1 \<le> Duration (wordOf m)"
proof -
  assume dg: "digitGroups m"
  obtain t m2 m3 where m: "m = (t, m2, m3)" by (cases m) auto
  from dg m have "m3 \<noteq> []" "list_all isDigit m3" by (auto simp: digitGroups_def)
  from Atoi_digits_range[OF this] show ?thesis by (auto simp: m wordOf_def)
qed

lemma yrcLineRe_digits:
  "yrcLineRe line = Some (m1, m2, content) \<Longrightarrow>
     m1 \<noteq> [] \<and> list_all isDigit m1 \<and> m2 \<noteq> [] \<and> list_all isDigit m2"
  by (auto simp: yrcLineRe_def split: option.splits if_splits dest: pairAt_digits)

lemma parseYrcLine_Inr:
  assumes m: "yrcLineRe line = Some (m1, m2, content)"
  shows "parseYrcLine line =
     Inr \<lparr>Words = (if filter keptMatch (wordInfoRe_FindAll content) = [] \<and> content \<noteq> []
                    then [wholeLineWord m1 m2 content]
                    else map wordOf (filter keptMatch (wordInfoRe_FindAll content))),
          StartTime = Atoi m1, EndTime = add64 (Atoi m1) (Atoi m2)\<rparr>"
proof -
  have "0 \<le> Atoi m2" using yrcLineRe_digits[OF m] Atoi_digits_range[of m2] by simp
  then have "(if Atoi m2 = 0 then 1 else Atoi m2) = max 1 (Atoi m2)" by auto
  then show ?thesis
    by (simp add: parseYrcLine_def m Let_def yrcWords_eq wholeLineWord_def)
qed

lemma parseYrcLine_Inr_iff: "(\<exists>li. parseYrcLine line = Inr li) \<longleftrightarrow> yrcLineRe line \<noteq> None"
  by (auto simp: parseYrcLine_def Let_def split: option.splits)

lemma FindAll_digits: "m \<in> set (wordInfoRe_FindAll content) \<Longrightarrow> digitGroups m"
  by (auto simp: wordInfoRe_FindAll_def dest: wordInfoRe_scan_digits)

lemma parseYrcLine_durations:
  assumes "parseYrcLine line = Inr li"
  shows "\<forall>w\<in>set (Words li). 1 \<le> Duration w"
proof -
  from assms obtain m1 m2 content where m: "yrcLineRe line = Some (m1, m2, content)"
    by (auto simp: parseYrcLine_def split: option.splits)
  have "\<forall>w\<in>set (map wordOf (filter keptMatch (wordInfoRe_FindAll content))). 1 \<le> Duration w"
    by (auto dest!: FindAll_digits wordOf_duration)
  moreover have "1 \<le> Duration (wholeLineWord m1 m2 content)"
    by (simp add: wholeLineWord_def)
  ultimately show ?thesis
    using assms unfolding parseYrcLine_Inr[OF m] by (auto split: if_splits)
qed

lemma wordInfoRe_scan_text_shorter:
  "(t, a, b) \<in> set (wordInfoRe_scan text s) \<Longrightarrow> length t < length text + length s"
proof (induction "text" s arbitrary: t a b rule: wordInfoRe_scan.induct)
  case (1 tx s)
  show ?case
  proof (cases "pairAt (CHR ''('') (CHR '')'') s")
    case None
    show ?thesis
    proof (cases s)
      case Nil
      with "1.prems" show ?thesis by (simp add: wordInfoRe_scan_Nil)
    next
      case (Cons c cs)
      show ?thesis
      proof (cases "c = CHR 0x0A")
        case True
        with None Cons "1.prems" have "(t, a, b) \<in> set (wordInfoRe_scan [] cs)"
          by (simp add: wordInfoRe_scan_None)
        from "1.IH"(1)[OF None Cons True this] Cons show ?thesis by simp
      next
        case False
        with None Cons "1.prems" have "(t, a, b) \<in> set (wordInfoRe_scan (tx @ [c]) cs)"
          by (simp add: wordInfoRe_scan_None)
        from "1.IH"(2)[OF None Cons False this] Cons show ?thesis by simp
      qed
    qed
  next
    case (Some p)
    obtain d1 d2 rest where p: "p = (d1, d2, rest)" by (cases p) auto
    from Some p have sh: "length rest < length s" by (auto dest: pairAt_shorter)
    from Some p "1.prems" have "(t, a, b) = (tx, d1, d2) \<or> (t, a, b) \<in> set (wordInfoRe_scan [] rest)"
      by (simp add: wordInfoRe_scan_Some)
    then show ?thesis
    proof
      assume "(t, a, b) = (tx, d1, d2)"
      then have "t = tx" by simp
      with sh show ?thesis by (cases s) auto
    next
      assume "(t, a, b) \<in> set (wordInfoRe_scan [] rest)"
      from "1.IH"(3)[OF Some p[symmetric] refl this] sh show ?thesis by simp
    qed
  qed
qed

lemma FindAll_text_neq: "(t, a, b) \<in> set (wordInfoRe_FindAll content) \<Longrightarrow> t \<noteq> content"
  by (auto simp: wordInfoRe_FindAll_def dest: wordInfoRe_scan_text_shorter)

lemma parseYrcToLines_loop_inv:
  assumes "\<forall>li\<in>set acc. Words li \<noteq> [] \<and> (\<forall>w\<in>set (Words li). 1 \<le> Duration w)"
  shows "\<forall>li\<in>set (parseYrcToLines_loop lines acc). Words li \<noteq> [] \<and> (\<forall>w\<in>set (Words li). 1 \<le> Duration w)"
  using assms
proof (induction lines arbitrary: acc)
  case Nil
  then show ?case by simp
next
  case (Cons line lines)
  show ?case
  proof (cases "\<not> HasPrefix line ''['' \<or> isMetadataLine line")
    case True
    then show ?thesis using Cons.IH[OF Cons.prems] by simp
  next
    case False
    show ?thesis
    proof (cases "parseYrcLine line")
      case (Inl e)
      with False show ?thesis using Cons.IH[OF Cons.prems] by simp
    next
      case (Inr li)
      show ?thesis
      proof (cases "Words li = []")
        case True
        with False Inr show ?thesis using Cons.IH[OF Cons.prems] by simp
      next
        case nonempty: False
        have "\<forall>l\<in>set (acc @ [li]). Words l \<noteq> [] \<and> (\<forall>w\<in>set (Words l). 1 \<le> Duration w)"
          using Cons.prems nonempty parseYrcLine_durations[OF Inr] by auto
        from Cons.IH[OF this] False Inr nonempty show ?thesis by simp
      qed
    qed
  qed
qed

text \<open>
  Claim C10. Every line returned by \<open>parseYrcToLines\<close> has at least one word, and every
  word of it has a duration of at least 1: words whose text is blank, words whose duration
  was corrected and whole-line words alike.
\<close>

theorem parseYrcToLines_words_positive:
  "li \<in> set (parseYrcToLines yrcContent) \<Longrightarrow>
     Words li \<noteq> [] \<and> (\<forall>w\<in>set (Words li). 1 \<le> Duration w)"
  using parseYrcToLines_loop_inv[of "[]" "Split yrcContent"]
  by (simp add: parseYrcToLines_def)

theorem parseYrcToLines_words_positive_witness:
  "parseYrcToLines ''[0,0] (5,7)x(9,0)'' =
     [\<lparr>Words = [\<lparr>Text = '' '', WStartTime = 5, Duration = 7\<rparr>,
                \<lparr>Text = ''x'', WStartTime = 9, Duration = 1\<rparr>], StartTime = 0, EndTime = 0\<rparr>] \<and>
   parseYrcToLines ''[3,0]la'' =
     [\<lparr>Words = [\<lparr>Text = ''la'', WStartTime = 3, Duration = 1\<rparr>], StartTime = 3, EndTime = 3\<rparr>] \<and>
   Words (hd (parseYrcToLines ''[0,0] (5,7)x(9,0)'')) \<noteq> [] \<and>
   list_all (\<lambda>w. 1 \<le> Duration w) (Words (hd (parseYrcToLines ''[0,0] (5,7)x(9,0)'')))"
proof -
  have e1: "parseYrcToLines ''[0,0] (5,7)x(9,0)'' =
     [\<lparr>Words = [\<lparr>Text = '' '', WStartTime = 5, Duration = 7\<rparr>,
                \<lparr>Text = ''x'', WStartTime = 9, Duration = 1\<rparr>], StartTime = 0, EndTime = 0\<rparr>]"
    by code_simp
  have e2: "parseYrcToLines ''[3,0]la'' =
     [\<lparr>Words = [\<lparr>Text = ''la'', WStartTime = 3, Duration = 1\<rparr>], StartTime = 3, EndTime = 3\<rparr>]"
    by code_simp
  have "hd (parseYrcToLines ''[0,0] (5,7)x(9,0)'') \<in> set (parseYrcToLines ''[0,0] (5,7)x(9,0)'')"
    by (simp add: e1)
  from parseYrcToLines_words_positive[OF this] e1 e2 show ?thesis
    by (simp add: list_all_iff)
qed

text \<open>
  Claim C8. For a line with a valid header the parsed words are exactly the words of the
  kept matches, in order, or the single whole-line word when no match is kept and the
  segment text is not empty; a match is kept unless its duration is 0 and its text is
  blank. So a word match of duration 0 whose text is not blank is in the parsed words with
  duration exactly 1, and one whose text is blank is absent: it is not a kept match, every
  parsed word is the word of a kept match or the whole-line word, and the text of the
  whole-line word is the whole segment, which is the text of no match. No word of duration
  0 is in the result, so a word whose text is not blank has a duration of at least 1.
\<close>

theorem parseYrcLine_zero_duration_words:
  assumes "yrcLineRe line = Some (m1, m2, content)"
  shows "\<exists>li. parseYrcLine line = Inr li \<and>
     Words li =
       (if (\<forall>m\<in>set (wordInfoRe_FindAll content). \<not> keptMatch m) \<and> content \<noteq> []
        then [wholeLineWord m1 m2 content]
        else map wordOf (filter keptMatch (wordInfoRe_FindAll content))) \<and>
     (\<forall>m\<in>set (wordInfoRe_FindAll content).
        case m of (t, a, b) \<Rightarrow>
          Atoi b = 0 \<longrightarrow>
            (TrimSpace t \<noteq> [] \<longrightarrow>
               keptMatch m \<and> wordOf m = \<lparr>Text = t, WStartTime = Atoi a, Duration = 1\<rparr> \<and>
               \<lparr>Text = t, WStartTime = Atoi a, Duration = 1\<rparr> \<in> set (Words li)) \<and>
            (TrimSpace t = [] \<longrightarrow>
               \<not> keptMatch m \<and> \<lparr>Text = t, WStartTime = Atoi a, Duration = 0\<rparr> \<notin> set (Words li) \<and>
               t \<noteq> Text (wholeLineWord m1 m2 content))) \<and>
     (\<forall>w\<in>set (Words li).
        (\<exists>m\<in>set (wordInfoRe_FindAll content). keptMatch m \<and> w = wordOf m) \<or>
        w = wholeLineWord m1 m2 content \<and> content \<noteq> [] \<and>
        (\<forall>m\<in>set (wordInfoRe_FindAll content). \<not> keptMatch m \<and> fst m \<noteq> Text w)) \<and>
     length (Words li) =
       (if (\<forall>m\<in>set (wordInfoRe_FindAll content). \<not> keptMatch m)
        then (if content = [] then 0 else 1)
        else length (filter keptMatch (wordInfoRe_FindAll content))) \<and>
     (filter keptMatch (wordInfoRe_FindAll content) \<noteq> [] \<longrightarrow>
        Words li = map wordOf (filter keptMatch (wordInfoRe_FindAll content))) \<and>
     (\<forall>w\<in>set (Words li). TrimSpace (Text w) \<noteq> [] \<longrightarrow> 1 \<le> Duration w)"
proof -
  let ?ms = "wordInfoRe_FindAll content"
  let ?kept = "map wordOf (filter keptMatch ?ms)"
  let ?li = "\<lparr>Words = (if filter keptMatch ?ms = [] \<and> content \<noteq> []
                    then [wholeLineWord m1 m2 content] else ?kept),
          StartTime = Atoi m1, EndTime = add64 (Atoi m1) (Atoi m2)\<rparr>"
  have li: "parseYrcLine line = Inr ?li" by (rule parseYrcLine_Inr[OF assms])
  have none_iff: "filter keptMatch ?ms = [] \<longleftrightarrow> (\<forall>m\<in>set ?ms. \<not> keptMatch m)"
    by (simp add: filter_empty_conv)
  have dur: "\<forall>w\<in>set (Words ?li). 1 \<le> Duration w" by (rule parseYrcLine_durations[OF li])
  have neq: "\<forall>m\<in>set ?ms. fst m \<noteq> content"
  proof
    fix m assume mem: "m \<in> set ?ms"
    obtain t a b where m: "m = (t, a, b)" by (cases m) auto
    from FindAll_text_neq[of t a b content] mem m show "fst m \<noteq> content" by simp
  qed
  have wt: "Text (wholeLineWord m1 m2 content) = content" by (simp add: wholeLineWord_def)
  have w: "Words ?li =
       (if (\<forall>m\<in>set ?ms. \<not> keptMatch m) \<and> content \<noteq> []
        then [wholeLineWord m1 m2 content] else ?kept)"
    unfolding none_iff[symmetric] by simp
  have a: "\<forall>m\<in>set ?ms. case m of (t, a, b) \<Rightarrow>
          Atoi b = 0 \<longrightarrow>
            (TrimSpace t \<noteq> [] \<longrightarrow>
               keptMatch m \<and> wordOf m = \<lparr>Text = t, WStartTime = Atoi a, Duration = 1\<rparr> \<and>
               \<lparr>Text = t, WStartTime = Atoi a, Duration = 1\<rparr> \<in> set (Words ?li)) \<and>
            (TrimSpace t = [] \<longrightarrow>
               \<not> keptMatch m \<and> \<lparr>Text = t, WStartTime = Atoi a, Duration = 0\<rparr> \<notin> set (Words ?li) \<and>
               t \<noteq> Text (wholeLineWord m1 m2 content))"
  proof
    fix m assume mem: "m \<in> set ?ms"
    obtain t a b where m: "m = (t, a, b)" by (cases m) auto
    have 1: "Atoi b = 0 \<Longrightarrow> TrimSpace t \<noteq> [] \<Longrightarrow> keptMatch m" by (simp add: m keptMatch_def)
    have w1: "Atoi b = 0 \<Longrightarrow> wordOf m = \<lparr>Text = t, WStartTime = Atoi a, Duration = 1\<rparr>"
      by (simp add: m wordOf_def)
    have 2: "Atoi b = 0 \<Longrightarrow> TrimSpace t \<noteq> [] \<Longrightarrow>
               \<lparr>Text = t, WStartTime = Atoi a, Duration = 1\<rparr> \<in> set (Words ?li)"
    proof -
      assume z: "Atoi b = 0" and nb: "TrimSpace t \<noteq> []"
      from mem 1[OF z nb] have k: "m \<in> set (filter keptMatch ?ms)" by simp
      have ne: "filter keptMatch ?ms \<noteq> []" using length_pos_if_in_set[OF k] by auto
      from k have "wordOf m \<in> set ?kept" by auto
      with w1[OF z] ne show ?thesis by simp
    qed
    have 3: "Atoi b = 0 \<Longrightarrow> TrimSpace t = [] \<Longrightarrow> \<not> keptMatch m" by (simp add: m keptMatch_def)
    have 4: "\<lparr>Text = t, WStartTime = Atoi a, Duration = 0\<rparr> \<notin> set (Words ?li)"
      using dur by fastforce
    have 5: "t \<noteq> Text (wholeLineWord m1 m2 content)" using neq mem m wt by auto
    show "case m of (t, a, b) \<Rightarrow>
          Atoi b = 0 \<longrightarrow>
            (TrimSpace t \<noteq> [] \<longrightarrow>
               keptMatch m \<and> wordOf m = \<lparr>Text = t, WStartTime = Atoi a, Duration = 1\<rparr> \<and>
               \<lparr>Text = t, WStartTime = Atoi a, Duration = 1\<rparr> \<in> set (Words ?li)) \<and>
            (TrimSpace t = [] \<longrightarrow>
               \<not> keptMatch m \<and> \<lparr>Text = t, WStartTime = Atoi a, Duration = 0\<rparr> \<notin> set (Words ?li) \<and>
               t \<noteq> Text (wholeLineWord m1 m2 content))"
      unfolding m using 1 w1 2 3 4 5 unfolding m by simp
  qed
  have o: "\<forall>w\<in>set (Words ?li).
        (\<exists>m\<in>set ?ms. keptMatch m \<and> w = wordOf m) \<or>
        w = wholeLineWord m1 m2 content \<and> content \<noteq> [] \<and>
        (\<forall>m\<in>set ?ms. \<not> keptMatch m \<and> fst m \<noteq> Text w)"
  proof (cases "filter keptMatch ?ms = [] \<and> content \<noteq> []")
    case True
    then have "Words ?li = [wholeLineWord m1 m2 content]" by simp
    moreover from True none_iff have "\<forall>m\<in>set ?ms. \<not> keptMatch m" by blast
    ultimately show ?thesis using True neq wt by simp
  next
    case False
    then have "Words ?li = ?kept" by simp
    then show ?thesis by auto
  qed
  have n: "length (Words ?li) =
       (if (\<forall>m\<in>set ?ms. \<not> keptMatch m) then (if content = [] then 0 else 1)
        else length (filter keptMatch ?ms))"
    unfolding none_iff[symmetric] by simp
  have b: "filter keptMatch ?ms \<noteq> [] \<longrightarrow> Words ?li = ?kept" by simp
  have c: "\<forall>w\<in>set (Words ?li). TrimSpace (Text w) \<noteq> [] \<longrightarrow> 1 \<le> Duration w" using dur by blast
  from li w a o n b c show ?thesis by blast
qed

theorem parseYrcLine_zero_duration_words_witness:
  "yrcLineRe ''[0,50] (5,0)x(9,0)'' = Some (''0'', ''50'', '' (5,0)x(9,0)'') \<and>
   wordInfoRe_FindAll '' (5,0)x(9,0)'' = [('' '', ''5'', ''0''), (''x'', ''9'', ''0'')] \<and>
   (\<exists>li. parseYrcLine ''[0,50] (5,0)x(9,0)'' = Inr li \<and>
      Words li = [\<lparr>Text = ''x'', WStartTime = 9, Duration = 1\<rparr>]) \<and>
   yrcLineRe ''[0,50] (5,0)'' = Some (''0'', ''50'', '' (5,0)'') \<and>
   wordInfoRe_FindAll '' (5,0)'' = [('' '', ''5'', ''0'')] \<and>
   (\<exists>li. parseYrcLine ''[0,50] (5,0)'' = Inr li \<and>
      Words li = [\<lparr>Text = '' (5,0)'', WStartTime = 0, Duration = 50\<rparr>])"
proof -
  have h: "yrcLineRe ''[0,50] (5,0)x(9,0)'' = Some (''0'', ''50'', '' (5,0)x(9,0)'')"
    by code_simp
  have f: "wordInfoRe_FindAll '' (5,0)x(9,0)'' = [('' '', ''5'', ''0''), (''x'', ''9'', ''0'')]"
    by code_simp
  have k: "filter keptMatch [('' '', ''5'', ''0''), (''x'', ''9'', ''0'')] = [(''x'', ''9'', ''0'')]"
    by code_simp
  have w: "wordOf (''x'', ''9'', ''0'') = \<lparr>Text = ''x'', WStartTime = 9, Duration = 1\<rparr>"
    by code_simp
  from parseYrcLine_zero_duration_words[OF h] obtain li where
    li: "parseYrcLine ''[0,50] (5,0)x(9,0)'' = Inr li" and
    kept: "filter keptMatch (wordInfoRe_FindAll '' (5,0)x(9,0)'') \<noteq> [] \<longrightarrow>
        Words li = map wordOf (filter keptMatch (wordInfoRe_FindAll '' (5,0)x(9,0)''))"
    by blast
  from kept[unfolded f k] have 1: "Words li = [\<lparr>Text = ''x'', WStartTime = 9, Duration = 1\<rparr>]"
    by (simp add: w)
  have h2: "yrcLineRe ''[0,50] (5,0)'' = Some (''0'', ''50'', '' (5,0)'')"
    by code_simp
  have f2: "wordInfoRe_FindAll '' (5,0)'' = [('' '', ''5'', ''0'')]"
    by code_simp
  have k2: "\<not> keptMatch ('' '', ''5'', ''0'')" by code_simp
  have w2: "wholeLineWord ''0'' ''50'' '' (5,0)'' = \<lparr>Text = '' (5,0)'', WStartTime = 0, Duration = 50\<rparr>"
    by code_simp
  from parseYrcLine_zero_duration_words[OF h2] obtain li2 where
    li2: "parseYrcLine ''[0,50] (5,0)'' = Inr li2" and
    all: "Words li2 =
       (if (\<forall>m\<in>set (wordInfoRe_FindAll '' (5,0)''). \<not> keptMatch m) \<and> '' (5,0)'' \<noteq> []
        then [wholeLineWord ''0'' ''50'' '' (5,0)'']
        else map wordOf (filter keptMatch (wordInfoRe_FindAll '' (5,0)'')))"
    by blast
  from all[unfolded f2] k2 have 2: "Words li2 = [\<lparr>Text = '' (5,0)'', WStartTime = 0, Duration = 50\<rparr>]"
    by (simp add: w2)
  from h f li 1 h2 f2 li2 2 show ?thesis by blast
qed

text \<open>
  Claim C3, as amended. For a line with a valid header and a non-empty segment text, the
  parser gives the line the single whole-line word exactly when no word match is kept:
  when there is no match at all, and also when every match was dropped by the correction
  of zero durations. When a match is kept the words are those of the kept matches and the
  whole-line word is not among them.
\<close>

theorem parseYrcLine_whole_line_word:
  assumes "yrcLineRe line = Some (m1, m2, content)" and "content \<noteq> []"
  shows "\<exists>li. parseYrcLine line = Inr li \<and>
     (Words li = [wholeLineWord m1 m2 content] \<longleftrightarrow>
        (\<forall>m\<in>set (wordInfoRe_FindAll content). \<not> keptMatch m)) \<and>
     (wordInfoRe_FindAll content = [] \<longrightarrow> Words li = [wholeLineWord m1 m2 content]) \<and>
     ((\<exists>m\<in>set (wordInfoRe_FindAll content). keptMatch m) \<longrightarrow>
        Words li = map wordOf (filter keptMatch (wordInfoRe_FindAll content)) \<and>
        wholeLineWord m1 m2 content \<notin> set (Words li))"
proof -
  let ?ms = "wordInfoRe_FindAll content"
  let ?kept = "map wordOf (filter keptMatch ?ms)"
  let ?li = "\<lparr>Words = (if filter keptMatch ?ms = [] \<and> content \<noteq> []
                    then [wholeLineWord m1 m2 content] else ?kept),
          StartTime = Atoi m1, EndTime = add64 (Atoi m1) (Atoi m2)\<rparr>"
  have li: "parseYrcLine line = Inr ?li" by (rule parseYrcLine_Inr[OF assms(1)])
  have none_iff: "filter keptMatch ?ms = [] \<longleftrightarrow> (\<forall>m\<in>set ?ms. \<not> keptMatch m)"
    by (simp add: filter_empty_conv)
  have notin: "wholeLineWord m1 m2 content \<notin> set ?kept"
  proof
    assume "wholeLineWord m1 m2 content \<in> set ?kept"
    then obtain m where mem: "m \<in> set ?ms" and eq: "wordOf m = wholeLineWord m1 m2 content" by auto
    obtain t a b where m: "m = (t, a, b)" by (cases m) auto
    from eq m have "t = content" by (simp add: wordOf_def wholeLineWord_def)
    with mem m FindAll_text_neq show False by blast
  qed
  have 1: "Words ?li = [wholeLineWord m1 m2 content] \<longleftrightarrow> (\<forall>m\<in>set ?ms. \<not> keptMatch m)"
  proof (cases "filter keptMatch ?ms = []")
    case True
    with assms(2) none_iff show ?thesis by simp
  next
    case False
    have "?kept \<noteq> [wholeLineWord m1 m2 content]" using notin by (metis list.set_intros(1))
    with False none_iff show ?thesis by simp
  qed
  have 2: "?ms = [] \<longrightarrow> Words ?li = [wholeLineWord m1 m2 content]" using assms(2) by simp
  have 3: "(\<exists>m\<in>set ?ms. keptMatch m) \<longrightarrow> Words ?li = ?kept \<and> wholeLineWord m1 m2 content \<notin> set (Words ?li)"
    using notin none_iff by auto
  from li 1 2 3 show ?thesis by blast
qed

text \<open>
  Claim C3 as stated fails: the segment text \<^verbatim>\<open>(0,0)\<close> has one word match, of duration 0
  and empty text, which is dropped; the line is then given the whole-line word.
\<close>

theorem parseYrcLine_whole_line_word_counterexample:
  "yrcLineRe ''[0,100](0,0)'' = Some (''0'', ''100'', ''(0,0)'') \<and>
   wordInfoRe_FindAll ''(0,0)'' = [([], ''0'', ''0'')] \<and>
   parseYrcLine ''[0,100](0,0)'' =
     Inr \<lparr>Words = [\<lparr>Text = ''(0,0)'', WStartTime = 0, Duration = 100\<rparr>],
          StartTime = 0, EndTime = 100\<rparr>"
  by code_simp

theorem parseYrcLine_whole_line_word_witness:
  "yrcLineRe ''[7,0]la la'' = Some (''7'', ''0'', ''la la'') \<and>
   wordInfoRe_FindAll ''la la'' = [] \<and>
   (\<exists>li. parseYrcLine ''[7,0]la la'' = Inr li \<and>
      Words li = [\<lparr>Text = ''la la'', WStartTime = 7, Duration = 1\<rparr>])"
proof -
  have h: "yrcLineRe ''[7,0]la la'' = Some (''7'', ''0'', ''la la'')"
    by code_simp
  have ne: "''la la'' \<noteq> []" by simp
  have f: "wordInfoRe_FindAll ''la la'' = []"
    by code_simp
  have w: "wholeLineWord ''7'' ''0'' ''la la'' = \<lparr>Text = ''la la'', WStartTime = 7, Duration = 1\<rparr>"
    by code_simp
  from parseYrcLine_whole_line_word[OF h ne] obtain li where
    li: "parseYrcLine ''[7,0]la la'' = Inr li" and
    syn: "wordInfoRe_FindAll ''la la'' = [] \<longrightarrow> Words li = [wholeLineWord ''7'' ''0'' ''la la'']"
    by blast
  from syn f w have "Words li = [\<lparr>Text = ''la la'', WStartTime = 7, Duration = 1\<rparr>]" by simp
  with h f li show ?thesis by blast
qed

section \<open>Properties of the line matchers\<close>

lemma wrap64_id: "minInt64 \<le> x \<Longrightarrow> x \<le> maxInt64 \<Longrightarrow> wrap64 x = x"
  by (simp add: wrap64_def minInt64_def maxInt64_def)

lemma abs_go_sub64:
  assumes "timeValue a" "timeValue b"
  shows "abs_go (sub64 a b) = \<bar>a - b\<bar>"
proof -
  from assms have r: "minInt64 < a - b" "a - b \<le> maxInt64"
    by (auto simp: timeValue_def minInt64_def maxInt64_def)
  then have s: "sub64 a b = a - b" by (simp add: sub64_def wrap64_id)
  from r have "wrap64 (- (a - b)) = - (a - b)"
    by (intro wrap64_id) (auto simp: minInt64_def maxInt64_def)
  with s show ?thesis by (simp add: abs_go_def)
qed

lemma matchRomajiLine_eq_find:
  assumes "timeValue t" "\<forall>l\<in>set ls. timeValue (StartTime l)"
  shows "matchRomajiLine t ls = find (\<lambda>l. \<bar>StartTime l - t\<bar> \<le> 100) ls"
  using assms(2)
proof (induction ls)
  case Nil
  show ?case by simp
next
  case (Cons l ls)
  then have "abs_go (sub64 (StartTime l) t) = \<bar>StartTime l - t\<bar>"
    using assms(1) by (simp add: abs_go_sub64)
  with Cons show ?case by (simp add: Let_def)
qed

lemma parseYrcToLines_loop_starts:
  assumes "\<forall>li\<in>set acc. timeValue (StartTime li)"
  shows "\<forall>li\<in>set (parseYrcToLines_loop lines acc). timeValue (StartTime li)"
  using assms
proof (induction lines arbitrary: acc)
  case Nil
  then show ?case by simp
next
  case (Cons line lines)
  show ?case
  proof (cases "parseYrcLine line")
    case (Inl e)
    then show ?thesis using Cons.IH[OF Cons.prems] by simp
  next
    case (Inr li)
    then obtain m1 m2 content where m: "yrcLineRe line = Some (m1, m2, content)"
      by (auto simp: parseYrcLine_def split: option.splits)
    from Inr parseYrcLine_Inr[OF m] have "StartTime li = Atoi m1" by auto
    with yrcLineRe_digits[OF m] Atoi_digits_range[of m1] have "timeValue (StartTime li)"
      by (simp add: timeValue_def)
    with Cons.prems have "\<forall>l\<in>set (acc @ [li]). timeValue (StartTime l)" by simp
    from Cons.IH[OF this] Cons.IH[OF Cons.prems] Inr show ?thesis by simp
  qed
qed

text \<open>The start time of every line \<open>parseYrcToLines\<close> returns is a time value.\<close>

lemma parseYrcToLines_starts:
  "li \<in> set (parseYrcToLines yrcContent) \<Longrightarrow> timeValue (StartTime li)"
  using parseYrcToLines_loop_starts[of "[]" "Split yrcContent"]
  by (simp add: parseYrcToLines_def)

text \<open>
  Claim C5. For a query time and romanization lines whose start times are time values,
  \<open>matchRomajiLine\<close> returns the first line, in the order of the sequence, whose start time
  is within 100 ms of the query (inclusive): every line before it is further than 100 ms
  away, whatever the lines after it are. When no line is within 100 ms the result is \<open>None\<close>.
\<close>

theorem matchRomajiLine_first_in_range:
  assumes "timeValue t" and "\<forall>l\<in>set ls. timeValue (StartTime l)"
  shows "(matchRomajiLine t ls = None \<longleftrightarrow> (\<forall>l\<in>set ls. 100 < \<bar>StartTime l - t\<bar>)) \<and>
         (\<forall>r. matchRomajiLine t ls = Some r \<longrightarrow>
            (\<exists>i<length ls. ls ! i = r \<and> \<bar>StartTime r - t\<bar> \<le> 100 \<and>
               (\<forall>j<i. 100 < \<bar>StartTime (ls ! j) - t\<bar>)))"
proof -
  have eq: "matchRomajiLine t ls = find (\<lambda>l. \<bar>StartTime l - t\<bar> \<le> 100) ls"
    by (rule matchRomajiLine_eq_find[OF assms])
  have 1: "matchRomajiLine t ls = None \<longleftrightarrow> (\<forall>l\<in>set ls. 100 < \<bar>StartTime l - t\<bar>)"
    unfolding eq by (auto simp: find_None_iff not_le)
  have 2: "\<forall>r. matchRomajiLine t ls = Some r \<longrightarrow>
            (\<exists>i<length ls. ls ! i = r \<and> \<bar>StartTime r - t\<bar> \<le> 100 \<and>
               (\<forall>j<i. 100 < \<bar>StartTime (ls ! j) - t\<bar>))"
    unfolding eq by (auto simp: find_Some_iff not_le)
  from 1 2 show ?thesis by blast
qed

theorem matchRomajiLine_first_in_range_witness:
  "timeValue 1000 \<and>
   matchRomajiLine 1000 [\<lparr>Words = [], StartTime = 700, EndTime = 0\<rparr>,
                         \<lparr>Words = [], StartTime = 1100, EndTime = 1\<rparr>,
                         \<lparr>Words = [], StartTime = 1000, EndTime = 2\<rparr>]
     = Some \<lparr>Words = [], StartTime = 1100, EndTime = 1\<rparr> \<and>
   matchRomajiLine 1000 [\<lparr>Words = [], StartTime = 1101, EndTime = 0\<rparr>] = None"
proof -
  let ?ls = "[\<lparr>Words = [], StartTime = 700, EndTime = 0\<rparr>,
              \<lparr>Words = [], StartTime = 1100, EndTime = 1\<rparr>,
              \<lparr>Words = [], StartTime = 1000, EndTime = 2\<rparr>]"
  have t: "timeValue 1000" by (simp add: timeValue_def maxInt64_def)
  have a: "\<forall>l\<in>set ?ls. timeValue (StartTime l)" by (simp add: timeValue_def maxInt64_def)
  have b: "\<forall>l\<in>set [\<lparr>Words = [], StartTime = 1101, EndTime = 0\<rparr>]. timeValue (StartTime l)"
    by (simp add: timeValue_def maxInt64_def)
  have n: "matchRomajiLine 1000 [\<lparr>Words = [], StartTime = 1101, EndTime = 0\<rparr>] = None"
    using matchRomajiLine_first_in_range[OF t b] by simp
  from matchRomajiLine_first_in_range[OF t a]
  have "matchRomajiLine 1000 ?ls \<noteq> None" by simp
  then obtain r where r: "matchRomajiLine 1000 ?ls = Some r" by auto
  with matchRomajiLine_first_in_range[OF t a] obtain i where
    i: "i < length ?ls" "?ls ! i = r" "\<bar>StartTime r - 1000\<bar> \<le> 100"
       "\<forall>j<i. 100 < \<bar>StartTime (?ls ! j) - 1000\<bar>" by blast
  have "i = 1"
  proof -
    from i(1) have "i = 0 \<or> i = 1 \<or> i = 2" by auto
    then show ?thesis
    proof (elim disjE)
      assume "i = 0" with i(2,3) show ?thesis by auto
    next
      assume "i = 1" then show ?thesis .
    next
      assume i2: "i = 2"
      from i(4)[rule_format, of 1] i2 have "100 < \<bar>StartTime (?ls ! 1) - 1000\<bar>" by simp
      then show ?thesis by simp
    qed
  qed
  with i(2) r have "matchRomajiLine 1000 ?ls = Some \<lparr>Words = [], StartTime = 1100, EndTime = 1\<rparr>"
    by simp
  with t n show ?thesis by blast
qed

lemma findClosestLine_loop_inv:
  assumes "timeValue t"
  shows "\<forall>l\<in>set ls. timeValue (Time l) \<Longrightarrow> closestSoFar t pre st \<Longrightarrow>
         closestSoFar t (pre @ ls) (findClosestLine_loop t ls (int (length pre)) st)"
proof (induction ls arbitrary: pre st)
  case Nil
  then show ?case by simp
next
  case (Cons l ls)
  obtain b m where st: "st = (b, m)" by (cases st) auto
  have d: "abs_go (sub64 (Time l) t) = \<bar>Time l - t\<bar>"
    using Cons.prems(1) assms by (simp add: abs_go_sub64)
  have tv: "\<forall>l\<in>set ls. timeValue (Time l)" using Cons.prems(1) by simp
  have len: "int (length pre) + 1 = int (length (pre @ [l]))" by simp
  show ?case
  proof (cases "\<bar>Time l - t\<bar> < m")
    case True
    have "closestSoFar t (pre @ [l]) (int (length pre), \<bar>Time l - t\<bar>)"
      using Cons.prems(2) True unfolding st closestSoFar_def
      by (auto simp: nth_append)
    from Cons.IH[OF tv this, unfolded len[symmetric]]
    have "closestSoFar t (pre @ l # ls)
            (findClosestLine_loop t ls (int (length pre) + 1) (int (length pre), \<bar>Time l - t\<bar>))"
      by (simp only: append_assoc append_Cons append_Nil)
    with True show ?thesis
      unfolding st by (simp only: findClosestLine_loop.simps d Let_def if_True)
  next
    case False
    have "closestSoFar t (pre @ [l]) (b, m)"
      using Cons.prems(2) False unfolding st closestSoFar_def
      by (auto simp: nth_append)
    from Cons.IH[OF tv this, unfolded len[symmetric]]
    have "closestSoFar t (pre @ l # ls) (findClosestLine_loop t ls (int (length pre) + 1) (b, m))"
      by (simp only: append_assoc append_Cons append_Nil)
    with False show ?thesis
      unfolding st by (simp only: findClosestLine_loop.simps d Let_def if_False)
  qed
qed

lemma findClosestLine_cases:
  assumes "timeValue t" "\<forall>l\<in>set ls. timeValue (Time l)"
  shows "((\<forall>l\<in>set ls. 500 \<le> \<bar>Time l - t\<bar>) \<and> findClosestLine t ls = []) \<or>
         (\<exists>l\<in>set ls. findClosestLine t ls = Content l \<and> \<bar>Time l - t\<bar> < 500 \<and>
            (\<forall>l'\<in>set ls. \<bar>Time l - t\<bar> \<le> \<bar>Time l' - t\<bar>))"
proof -
  obtain b m where r: "findClosestLine_loop t ls 0 (- 1, 500) = (b, m)"
    by (cases "findClosestLine_loop t ls 0 (- 1, 500)") auto
  have "closestSoFar t [] (- 1, 500)" by (simp add: closestSoFar_def)
  from findClosestLine_loop_inv[OF assms(1) assms(2) this]
  have inv: "closestSoFar t ls (b, m)" by (simp add: r)
  show ?thesis
  proof (cases "b = - 1")
    case True
    with inv have "\<forall>l\<in>set ls. 500 \<le> \<bar>Time l - t\<bar>" by (auto simp: closestSoFar_def)
    moreover have "findClosestLine t ls = []" using True by (simp add: findClosestLine_def r)
    ultimately show ?thesis by blast
  next
    case False
    with inv have b: "0 \<le> b" "nat b < length ls" "m = \<bar>Time (ls ! nat b) - t\<bar>" "m < 500"
      "\<forall>l\<in>set ls. m \<le> \<bar>Time l - t\<bar>" by (auto simp: closestSoFar_def)
    have "findClosestLine t ls = Content (ls ! nat b)" using False by (simp add: findClosestLine_def r)
    moreover have "ls ! nat b \<in> set ls" using b(2) by simp
    ultimately show ?thesis using b by blast
  qed
qed

text \<open>
  Claim C6. For a query time \<open>t\<close> and entries whose times are time values,
  \<open>findClosestLine\<close> returns the empty string when every entry is 500 ms or more away, and
  otherwise the text of an entry that minimises the distance to \<open>t\<close>, which is then less
  than 500 ms. For a single entry at \<open>T\<close> the query matches at \<open>T + 499\<close> and \<open>T - 499\<close> and
  does not at \<open>T + 500\<close>, \<open>T + 501\<close> and \<open>T - 500\<close>.
\<close>

theorem findClosestLine_closest_within_500:
  assumes "timeValue t" and "\<forall>l\<in>set ls. timeValue (Time l)"
  shows "((\<forall>l\<in>set ls. 500 \<le> \<bar>Time l - t\<bar>) \<longrightarrow> findClosestLine t ls = []) \<and>
         ((\<exists>l\<in>set ls. \<bar>Time l - t\<bar> < 500) \<longrightarrow>
            (\<exists>l\<in>set ls. findClosestLine t ls = Content l \<and> \<bar>Time l - t\<bar> < 500 \<and>
               (\<forall>l'\<in>set ls. \<bar>Time l - t\<bar> \<le> \<bar>Time l' - t\<bar>))) \<and>
         (ls = [\<lparr>Time = T, Content = c\<rparr>] \<longrightarrow>
            (t = T + 499 \<or> t = T - 499 \<longrightarrow> findClosestLine t ls = c) \<and>
            (t = T + 500 \<or> t = T + 501 \<or> t = T - 500 \<longrightarrow> findClosestLine t ls = []))"
proof -
  note c = findClosestLine_cases[OF assms]
  have 1: "(\<forall>l\<in>set ls. 500 \<le> \<bar>Time l - t\<bar>) \<longrightarrow> findClosestLine t ls = []"
    using c by fastforce
  have 2: "(\<exists>l\<in>set ls. \<bar>Time l - t\<bar> < 500) \<longrightarrow>
            (\<exists>l\<in>set ls. findClosestLine t ls = Content l \<and> \<bar>Time l - t\<bar> < 500 \<and>
               (\<forall>l'\<in>set ls. \<bar>Time l - t\<bar> \<le> \<bar>Time l' - t\<bar>))"
  proof
    assume "\<exists>l\<in>set ls. \<bar>Time l - t\<bar> < 500"
    with c show "\<exists>l\<in>set ls. findClosestLine t ls = Content l \<and> \<bar>Time l - t\<bar> < 500 \<and>
               (\<forall>l'\<in>set ls. \<bar>Time l - t\<bar> \<le> \<bar>Time l' - t\<bar>)" by fastforce
  qed
  have 3: "ls = [\<lparr>Time = T, Content = c\<rparr>] \<longrightarrow>
            (t = T + 499 \<or> t = T - 499 \<longrightarrow> findClosestLine t ls = c) \<and>
            (t = T + 500 \<or> t = T + 501 \<or> t = T - 500 \<longrightarrow> findClosestLine t ls = [])"
  proof
    assume ls: "ls = [\<lparr>Time = T, Content = c\<rparr>]"
    have a: "t = T + 499 \<or> t = T - 499 \<longrightarrow> findClosestLine t ls = c"
      using 2 unfolding ls by auto
    have b: "t = T + 500 \<or> t = T + 501 \<or> t = T - 500 \<longrightarrow> findClosestLine t ls = []"
      using 1 unfolding ls by auto
    from a b show "(t = T + 499 \<or> t = T - 499 \<longrightarrow> findClosestLine t ls = c) \<and>
            (t = T + 500 \<or> t = T + 501 \<or> t = T - 500 \<longrightarrow> findClosestLine t ls = [])" by blast
  qed
  from 1 2 3 show ?thesis by blast
qed

theorem findClosestLine_closest_within_500_witness:
  "timeValue 1000 \<and>
   findClosestLine 1000 [\<lparr>Time = 501, Content = ''a''\<rparr>] = ''a'' \<and>
   findClosestLine 1000 [\<lparr>Time = 1499, Content = ''b''\<rparr>] = ''b'' \<and>
   findClosestLine 1000 [\<lparr>Time = 499, Content = ''c''\<rparr>] = [] \<and>
   findClosestLine 1000 [\<lparr>Time = 500, Content = ''d''\<rparr>] = []"
proof -
  have t: "timeValue 1000" by (simp add: timeValue_def maxInt64_def)
  have tv: "\<And>T c. 0 \<le> T \<Longrightarrow> T \<le> 5000 \<Longrightarrow> \<forall>l\<in>set [\<lparr>Time = T, Content = c\<rparr>]. timeValue (Time l)"
    by (simp add: timeValue_def maxInt64_def)
  have a: "findClosestLine 1000 [\<lparr>Time = 501, Content = ''a''\<rparr>] = ''a''"
    using findClosestLine_closest_within_500[OF t tv[of 501 "''a''"], of 501 "''a''"] by simp
  have b: "findClosestLine 1000 [\<lparr>Time = 1499, Content = ''b''\<rparr>] = ''b''"
    using findClosestLine_closest_within_500[OF t tv[of 1499 "''b''"], of 1499 "''b''"] by simp
  have c: "findClosestLine 1000 [\<lparr>Time = 499, Content = ''c''\<rparr>] = []"
    using findClosestLine_closest_within_500[OF t tv[of 499 "''c''"], of 499 "''c''"] by simp
  have d: "findClosestLine 1000 [\<lparr>Time = 500, Content = ''d''\<rparr>] = []"
    using findClosestLine_closest_within_500[OF t tv[of 500 "''d''"], of 500 "''d''"] by simp
  from t a b c d show ?thesis by blast
qed

section \<open>Properties of the paragraph grouper\<close>

lemma startFlags_append: "startFlags (xs @ ys) = startFlags xs @ startFlags ys"
  by (simp add: startFlags_def)

lemma startFlags_snoc_line:
  "Lines cur \<noteq> [] \<Longrightarrow>
     startFlags [cur\<lparr>Lines := Lines cur @ [l]\<rparr>] = startFlags [cur] @ [False]"
  by (cases "Lines cur") (simp_all add: startFlags_def replicate_append_same)

lemma groupLinesIntoDivs_loop_inv:
  "Lines cur \<noteq> [] \<Longrightarrow> last (Lines cur) = prev \<Longrightarrow>
   DStartTime cur = StartTime (hd (Lines cur)) \<Longrightarrow> \<forall>d\<in>set divs. closedDiv d \<Longrightarrow>
   groupLinesIntoDivs_loop g prev rest (divs, cur) = (divs', cur') \<Longrightarrow>
     Lines cur' \<noteq> [] \<and> DStartTime cur' = StartTime (hd (Lines cur')) \<and>
     (\<forall>d\<in>set divs'. closedDiv d) \<and>
     concat (map Lines (divs' @ [cur'])) = concat (map Lines (divs @ [cur])) @ rest \<and>
     startFlags (divs' @ [cur']) =
       startFlags (divs @ [cur]) @ map (\<lambda>j. g < gapBefore (prev # rest) (Suc j)) [0..<length rest]"
proof (induction rest arbitrary: prev divs cur)
  case Nil
  then show ?case by simp
next
  case (Cons l ls)
  have shift: "map (\<lambda>j. g < gapBefore (prev # l # ls) (Suc j)) [0..<length (l # ls)] =
        (g < gapBefore (prev # l # ls) 1) # map (\<lambda>j. g < gapBefore (l # ls) (Suc j)) [0..<length ls]"
    by (simp add: map_upt_Suc gapBefore_def del: upt_Suc)
  have gap1: "gapBefore (prev # l # ls) 1 = sub64 (StartTime l) (contentEndTime prev)"
    by (simp add: gapBefore_def)
  show ?case
  proof (cases "g < sub64 (StartTime l) (contentEndTime prev)")
    case True
    let ?closed = "cur\<lparr>DEndTime := contentEndTime (last (Lines cur))\<rparr>"
    let ?new = "\<lparr>DStartTime = StartTime l, DEndTime = 0, Lines = [l]\<rparr>"
    from Cons.prems(5) True
    have r: "groupLinesIntoDivs_loop g l ls (divs @ [?closed], ?new) = (divs', cur')"
      by (simp add: Let_def)
    have c: "\<forall>d\<in>set (divs @ [?closed]). closedDiv d"
      using Cons.prems(1,3,4) by (auto simp: closedDiv_def)
    from Cons.IH[OF _ _ _ c r]
    have ih: "Lines cur' \<noteq> []" "DStartTime cur' = StartTime (hd (Lines cur'))"
      "\<forall>d\<in>set divs'. closedDiv d"
      "concat (map Lines (divs' @ [cur'])) = concat (map Lines ((divs @ [?closed]) @ [?new])) @ ls"
      "startFlags (divs' @ [cur']) = startFlags ((divs @ [?closed]) @ [?new]) @
          map (\<lambda>j. g < gapBefore (l # ls) (Suc j)) [0..<length ls]"
      by simp_all
    have f: "startFlags ((divs @ [?closed]) @ [?new]) = startFlags (divs @ [cur]) @ [True]"
      by (simp add: startFlags_def)
    from ih(4) have cc: "concat (map Lines (divs' @ [cur'])) = concat (map Lines (divs @ [cur])) @ l # ls"
      by simp
    from ih(5) have "startFlags (divs' @ [cur']) =
       startFlags (divs @ [cur]) @ map (\<lambda>j. g < gapBefore (prev # l # ls) (Suc j)) [0..<length (l # ls)]"
      unfolding shift f gap1 using True by simp
    with ih(1,2,3) cc show ?thesis by blast
  next
    case False
    let ?cur = "cur\<lparr>Lines := Lines cur @ [l]\<rparr>"
    from Cons.prems(5) False
    have r: "groupLinesIntoDivs_loop g l ls (divs, ?cur) = (divs', cur')"
      by (simp add: Let_def)
    have s: "DStartTime ?cur = StartTime (hd (Lines ?cur))"
      using Cons.prems(1,3) by simp
    from Cons.IH[OF _ _ s Cons.prems(4) r]
    have ih: "Lines cur' \<noteq> []" "DStartTime cur' = StartTime (hd (Lines cur'))"
      "\<forall>d\<in>set divs'. closedDiv d"
      "concat (map Lines (divs' @ [cur'])) = concat (map Lines (divs @ [?cur])) @ ls"
      "startFlags (divs' @ [cur']) = startFlags (divs @ [?cur]) @
          map (\<lambda>j. g < gapBefore (l # ls) (Suc j)) [0..<length ls]"
      by simp_all
    have f: "startFlags (divs @ [?cur]) = startFlags (divs @ [cur]) @ [False]"
      using startFlags_snoc_line[OF Cons.prems(1)] by (simp add: startFlags_append)
    from ih(4) have cc: "concat (map Lines (divs' @ [cur'])) = concat (map Lines (divs @ [cur])) @ l # ls"
      by simp
    from ih(5) have "startFlags (divs' @ [cur']) =
       startFlags (divs @ [cur]) @ map (\<lambda>j. g < gapBefore (prev # l # ls) (Suc j)) [0..<length (l # ls)]"
      unfolding shift f gap1 using False by simp
    with ih(1,2,3) cc show ?thesis by blast
  qed
qed

lemma groupLinesIntoDivs_Cons:
  "\<exists>divs cur.
     groupLinesIntoDivs (l0 # rest) g = divs @ [cur\<lparr>DEndTime := contentEndTime (last (Lines cur))\<rparr>] \<and>
     Lines cur \<noteq> [] \<and> DStartTime cur = StartTime (hd (Lines cur)) \<and>
     (\<forall>d\<in>set divs. closedDiv d) \<and>
     concat (map Lines (divs @ [cur])) = l0 # rest \<and>
     startFlags (divs @ [cur]) = True # map (\<lambda>j. g < gapBefore (l0 # rest) (Suc j)) [0..<length rest]"
proof -
  let ?cur0 = "\<lparr>DStartTime = StartTime l0, DEndTime = 0, Lines = [l0]\<rparr>"
  obtain divs cur where r: "groupLinesIntoDivs_loop g l0 rest ([], ?cur0) = (divs, cur)"
    by (cases "groupLinesIntoDivs_loop g l0 rest ([], ?cur0)") auto
  have "Lines cur \<noteq> [] \<and> DStartTime cur = StartTime (hd (Lines cur)) \<and>
     (\<forall>d\<in>set divs. closedDiv d) \<and>
     concat (map Lines (divs @ [cur])) = concat (map Lines ([] @ [?cur0])) @ rest \<and>
     startFlags (divs @ [cur]) =
       startFlags ([] @ [?cur0]) @ map (\<lambda>j. g < gapBefore (l0 # rest) (Suc j)) [0..<length rest]"
    by (rule groupLinesIntoDivs_loop_inv[OF _ _ _ _ r]) simp_all
  then have p: "Lines cur \<noteq> []" "DStartTime cur = StartTime (hd (Lines cur))"
     "\<forall>d\<in>set divs. closedDiv d" "concat (map Lines (divs @ [cur])) = l0 # rest"
     "startFlags (divs @ [cur]) = True # map (\<lambda>j. g < gapBefore (l0 # rest) (Suc j)) [0..<length rest]"
    by (simp_all add: startFlags_def)
  have "groupLinesIntoDivs (l0 # rest) g = divs @ [cur\<lparr>DEndTime := contentEndTime (last (Lines cur))\<rparr>]"
    using p(1) by (simp add: groupLinesIntoDivs_def r)
  with p show ?thesis by blast
qed

lemma startFlags_count: "length (filter id (startFlags ds)) = length ds"
  by (induction ds) (simp_all add: startFlags_def)

lemma startFlags_close:
  "startFlags (divs @ [cur\<lparr>DEndTime := e\<rparr>]) = startFlags (divs @ [cur])"
  by (simp add: startFlags_def)

lemma contentEndTime_exact:
  "timeValue (exactContentEnd line) \<Longrightarrow> contentEndTime line = exactContentEnd line"
  by (auto simp: contentEndTime_def exactContentEnd_def add64_def timeValue_def Let_def
           intro!: wrap64_id simp: minInt64_def)

lemma sub64_timeValue: "timeValue a \<Longrightarrow> timeValue b \<Longrightarrow> sub64 a b = a - b"
  unfolding sub64_def by (rule wrap64_id) (auto simp: timeValue_def minInt64_def maxInt64_def)

lemma gapBefore_exact:
  assumes "timeValue (StartTime (lines ! i))" "timeValue (exactContentEnd (lines ! (i - 1)))"
  shows "gapBefore lines i = StartTime (lines ! i) - exactContentEnd (lines ! (i - 1))"
  using assms by (simp add: gapBefore_def contentEndTime_exact sub64_timeValue)

text \<open>
  Claim C7. For a non-empty sequence of lines the paragraphs are the lines, in order, cut
  exactly before each line \<open>i > 0\<close> whose gap to line \<open>i - 1\<close> is greater than the threshold;
  so there is one paragraph more than there are such gaps. The gap is the start of line
  \<open>i\<close> minus the content end of line \<open>i - 1\<close> as Go computes it, which is their difference
  as integers whenever both are time values. A single line gives one paragraph spanning
  it, and four lines with the gaps 900, 1000 and 1001 under the threshold 1000 give two
  paragraphs, cut at the last gap.
\<close>

theorem groupLinesIntoDivs_boundaries:
  assumes "lines \<noteq> []"
  shows "concat (map Lines (groupLinesIntoDivs lines maxGap)) = lines \<and>
     (\<forall>d\<in>set (groupLinesIntoDivs lines maxGap). closedDiv d) \<and>
     length (startFlags (groupLinesIntoDivs lines maxGap)) = length lines \<and>
     (\<forall>i<length lines. startFlags (groupLinesIntoDivs lines maxGap) ! i \<longleftrightarrow>
        (i = 0 \<or> maxGap < gapBefore lines i)) \<and>
     (\<forall>i. timeValue (StartTime (lines ! i)) \<and> timeValue (exactContentEnd (lines ! (i - 1))) \<longrightarrow>
        gapBefore lines i = StartTime (lines ! i) - exactContentEnd (lines ! (i - 1))) \<and>
     length (groupLinesIntoDivs lines maxGap) =
        1 + length (filter (\<lambda>i. maxGap < gapBefore lines i) [1..<length lines]) \<and>
     (\<forall>l. lines = [l] \<longrightarrow>
        groupLinesIntoDivs lines maxGap =
          [\<lparr>DStartTime = StartTime l, DEndTime = contentEndTime l, Lines = [l]\<rparr>]) \<and>
     (\<forall>a b c d. lines = [a, b, c, d] \<and> maxGap = 1000 \<and> gapBefore lines 1 = 900 \<and>
        gapBefore lines 2 = 1000 \<and> gapBefore lines 3 = 1001 \<longrightarrow>
        map Lines (groupLinesIntoDivs lines maxGap) = [[a, b, c], [d]])"
proof -
  from assms obtain l0 rest where lines: "lines = l0 # rest" by (cases lines) auto
  let ?ds = "groupLinesIntoDivs lines maxGap"
  let ?fl = "True # map (\<lambda>j. maxGap < gapBefore lines (Suc j)) [0..<length rest]"
  from groupLinesIntoDivs_Cons[of l0 rest maxGap] obtain divs cur where
    ds: "?ds = divs @ [cur\<lparr>DEndTime := contentEndTime (last (Lines cur))\<rparr>]" and
    cur: "Lines cur \<noteq> []" "DStartTime cur = StartTime (hd (Lines cur))" and
    divs: "\<forall>d\<in>set divs. closedDiv d" and
    cc: "concat (map Lines (divs @ [cur])) = lines" and
    fl: "startFlags (divs @ [cur]) = ?fl"
    unfolding lines by blast
  have 1: "concat (map Lines ?ds) = lines" using cc by (simp add: ds)
  have 2: "\<forall>d\<in>set ?ds. closedDiv d" using divs cur by (auto simp: ds closedDiv_def)
  have fl': "startFlags ?ds = ?fl" using fl by (simp add: ds startFlags_close)
  have 3: "length (startFlags ?ds) = length lines" unfolding fl' by (simp add: lines)
  have 4: "\<forall>i<length lines. startFlags ?ds ! i \<longleftrightarrow> (i = 0 \<or> maxGap < gapBefore lines i)"
  proof (intro allI impI)
    fix i assume "i < length lines"
    then show "startFlags ?ds ! i \<longleftrightarrow> (i = 0 \<or> maxGap < gapBefore lines i)"
      unfolding fl' by (cases i) (simp_all add: lines)
  qed
  have "length ?ds = length (filter id ?fl)" using startFlags_count[of ?ds] by (simp add: fl')
  also have "\<dots> = 1 + length (filter (\<lambda>j. maxGap < gapBefore lines (Suc j)) [0..<length rest])"
    by (simp add: filter_map comp_def)
  also have "filter (\<lambda>j. maxGap < gapBefore lines (Suc j)) [0..<length rest] =
             filter ((\<lambda>i. maxGap < gapBefore lines i) \<circ> Suc) [0..<length rest]"
    by (simp add: comp_def)
  also have "length \<dots> = length (filter (\<lambda>i. maxGap < gapBefore lines i) (map Suc [0..<length rest]))"
    by (simp add: filter_map)
  also have "map Suc [0..<length rest] = [1..<length lines]"
    by (simp add: map_Suc_upt lines)
  finally have 5: "length ?ds = 1 + length (filter (\<lambda>i. maxGap < gapBefore lines i) [1..<length lines])" .
  have 6: "\<forall>l. lines = [l] \<longrightarrow>
        ?ds = [\<lparr>DStartTime = StartTime l, DEndTime = contentEndTime l, Lines = [l]\<rparr>]"
    by (simp add: groupLinesIntoDivs_def)
  have 7: "\<forall>a b c d. lines = [a, b, c, d] \<and> maxGap = 1000 \<and> gapBefore lines 1 = 900 \<and>
        gapBefore lines 2 = 1000 \<and> gapBefore lines 3 = 1001 \<longrightarrow>
        map Lines ?ds = [[a, b, c], [d]]"
  proof (intro allI impI, elim conjE)
    fix a b c d
    assume l: "lines = [a, b, c, d]" and g: "maxGap = 1000"
      and g1: "gapBefore lines 1 = 900" and g2: "gapBefore lines 2 = 1000"
      and g3: "gapBefore lines 3 = 1001"
    from g1 l have s1: "sub64 (StartTime b) (contentEndTime a) = 900" by (simp add: gapBefore_def)
    from g2 l have s2: "sub64 (StartTime c) (contentEndTime b) = 1000" by (simp add: gapBefore_def)
    from g3 l have s3: "sub64 (StartTime d) (contentEndTime c) = 1001"
      by (simp add: gapBefore_def numeral_3_eq_3)
    show "map Lines ?ds = [[a, b, c], [d]]"
      unfolding l g by (simp add: groupLinesIntoDivs_def Let_def s1 s2 s3)
  qed
  have 8: "\<forall>i. timeValue (StartTime (lines ! i)) \<and> timeValue (exactContentEnd (lines ! (i - 1))) \<longrightarrow>
        gapBefore lines i = StartTime (lines ! i) - exactContentEnd (lines ! (i - 1))"
    using gapBefore_exact by blast
  from 1 2 3 4 5 6 7 8 show ?thesis by blast
qed

theorem groupLinesIntoDivs_boundaries_witness:
  "map Lines (groupLinesIntoDivs
     [\<lparr>Words = [\<lparr>Text = ''a'', WStartTime = 0, Duration = 100\<rparr>], StartTime = 0, EndTime = 5000\<rparr>,
      \<lparr>Words = [], StartTime = 1000, EndTime = 1100\<rparr>,
      \<lparr>Words = [], StartTime = 2100, EndTime = 2200\<rparr>,
      \<lparr>Words = [], StartTime = 3201, EndTime = 3300\<rparr>] 1000) =
   [[\<lparr>Words = [\<lparr>Text = ''a'', WStartTime = 0, Duration = 100\<rparr>], StartTime = 0, EndTime = 5000\<rparr>,
     \<lparr>Words = [], StartTime = 1000, EndTime = 1100\<rparr>,
     \<lparr>Words = [], StartTime = 2100, EndTime = 2200\<rparr>],
    [\<lparr>Words = [], StartTime = 3201, EndTime = 3300\<rparr>]] \<and>
   length (groupLinesIntoDivs
     [\<lparr>Words = [\<lparr>Text = ''a'', WStartTime = 0, Duration = 100\<rparr>], StartTime = 0, EndTime = 5000\<rparr>,
      \<lparr>Words = [], StartTime = 1000, EndTime = 1100\<rparr>,
      \<lparr>Words = [], StartTime = 2100, EndTime = 2200\<rparr>,
      \<lparr>Words = [], StartTime = 3201, EndTime = 3300\<rparr>] 1000) = 2"
proof -
  let ?a = "\<lparr>Words = [\<lparr>Text = ''a'', WStartTime = 0, Duration = 100\<rparr>], StartTime = 0, EndTime = 5000\<rparr>"
  let ?b = "\<lparr>Words = [], StartTime = 1000, EndTime = 1100\<rparr>"
  let ?c = "\<lparr>Words = [], StartTime = 2100, EndTime = 2200\<rparr>"
  let ?d = "\<lparr>Words = [], StartTime = 3201, EndTime = 3300\<rparr>"
  let ?ls = "[?a, ?b, ?c, ?d]"
  have ne: "?ls \<noteq> []" by simp
  have g1: "gapBefore ?ls 1 = 900"
    by (simp add: gapBefore_def contentEndTime_def sub64_def add64_def wrap64_def)
  have g2: "gapBefore ?ls 2 = 1000"
    by (simp add: gapBefore_def contentEndTime_def sub64_def add64_def wrap64_def)
  have g3: "gapBefore ?ls 3 = 1001"
    by (simp add: gapBefore_def contentEndTime_def sub64_def add64_def wrap64_def numeral_3_eq_3)
  from groupLinesIntoDivs_boundaries[OF ne, of 1000] g1 g2 g3
  have m: "map Lines (groupLinesIntoDivs ?ls 1000) = [[?a, ?b, ?c], [?d]]" by blast
  then have "length (map Lines (groupLinesIntoDivs ?ls 1000)) = 2" by simp
  then have "length (groupLinesIntoDivs ?ls 1000) = 2" by simp
  with m show ?thesis by blast
qed

section \<open>Properties of the time codec\<close>

lemma lrcTimeRe_groups:
  assumes "lrcTimeRe line = Some (m1, m2, f, rest)"
  shows "length m1 = 2 \<and> list_all isDigit m1 \<and> length m2 = 2 \<and> list_all isDigit m2 \<and>
         (length f = 2 \<or> length f = 3) \<and> list_all isDigit f"
  using assms unfolding lrcTimeRe_def
  by (auto split: list.splits if_splits)

lemma decVal_snoc: "decVal (ds @ [c]) = decVal ds * 10 + digitVal c"
  by (simp add: decVal_def)

lemma decVal_bound: "list_all isDigit ds \<Longrightarrow> 0 \<le> decVal ds \<and> decVal ds < 10 ^ length ds"
proof (induction ds rule: rev_induct)
  case Nil
  show ?case by (simp add: decVal_def)
next
  case (snoc c ds)
  then have d: "0 \<le> digitVal c" "digitVal c \<le> 9" by (auto simp: isDigit_def digitVal_def)
  from snoc have "0 \<le> decVal ds" "decVal ds + 1 \<le> 10 ^ length ds" by auto
  then have "0 \<le> decVal ds * 10 + digitVal c" "decVal ds * 10 + digitVal c < 10 * 10 ^ length ds"
    using d by auto
  then show ?case by (simp add: decVal_snoc)
qed

lemma Atoi_small:
  assumes "list_all isDigit ds" "ds \<noteq> []" "length ds \<le> 3"
  shows "Atoi ds = decVal ds \<and> 0 \<le> decVal ds \<and> decVal ds < 10 ^ length ds"
proof -
  from decVal_bound[OF assms(1)] have b: "0 \<le> decVal ds" "decVal ds < 10 ^ length ds" by auto
  have "(10::int) ^ length ds \<le> 10 ^ 3" using assms(3) by (intro power_increasing) auto
  with b have "decVal ds \<le> maxInt64" by (simp add: maxInt64_def)
  moreover have "Atoi ds = min maxInt64 (decVal ds)"
    using assms(1,2) by (cases ds) (auto simp: Atoi_def isDigit_def)
  ultimately show ?thesis using b by simp
qed

lemma wrap64_small: "0 \<le> x \<Longrightarrow> x \<le> 10000000 \<Longrightarrow> wrap64 x = x"
  by (rule wrap64_id) (simp_all add: minInt64_def maxInt64_def)

lemma lrcTotalMs_value:
  assumes "lrcTimeRe line = Some (m1, m2, f, rest)"
  shows "lrcTotalMs m1 m2 f =
           decVal m1 * 60000 + decVal m2 * 1000 + (if length f = 2 then decVal f * 10 else decVal f) \<and>
         0 \<le> decVal m1 \<and> decVal m1 \<le> 99 \<and> 0 \<le> decVal m2 \<and> decVal m2 \<le> 99 \<and>
         0 \<le> decVal f \<and> (if length f = 2 then decVal f \<le> 99 else decVal f \<le> 999)"
proof -
  note g = lrcTimeRe_groups[OF assms]
  from g have ne: "m1 \<noteq> []" "m2 \<noteq> []" "f \<noteq> []" by auto
  from g ne have a1: "Atoi m1 = decVal m1" "0 \<le> decVal m1" "decVal m1 \<le> 99"
    using Atoi_small[of m1] by auto
  from g ne have a2: "Atoi m2 = decVal m2" "0 \<le> decVal m2" "decVal m2 \<le> 99"
    using Atoi_small[of m2] by auto
  from g ne have a3: "Atoi f = decVal f" "0 \<le> decVal f"
    "(if length f = 2 then decVal f \<le> 99 else decVal f \<le> 999)"
    using Atoi_small[of f] by auto
  have m1: "mul64 (mul64 (decVal m1) 60) 1000 = decVal m1 * 60000"
    using a1 by (simp add: mul64_def wrap64_small)
  have m2: "mul64 (decVal m2) 1000 = decVal m2 * 1000"
    using a2 by (simp add: mul64_def wrap64_small)
  have m3: "(if length f = 2 then mul64 (decVal f) 10 else decVal f) =
            (if length f = 2 then decVal f * 10 else decVal f)"
    using a3 by (auto simp: mul64_def intro!: wrap64_small split: if_splits)
  have b3: "0 \<le> (if length f = 2 then decVal f * 10 else decVal f)"
           "(if length f = 2 then decVal f * 10 else decVal f) \<le> 999"
    using a3 by (auto split: if_splits)
  have s1: "add64 (decVal m1 * 60000) (decVal m2 * 1000) = decVal m1 * 60000 + decVal m2 * 1000"
    using a1 a2 by (simp add: add64_def wrap64_small)
  have s2: "add64 (decVal m1 * 60000 + decVal m2 * 1000) (if length f = 2 then decVal f * 10 else decVal f)
       = decVal m1 * 60000 + decVal m2 * 1000 + (if length f = 2 then decVal f * 10 else decVal f)"
    using a1 a2 b3 unfolding add64_def by (intro wrap64_small) auto
  have "lrcTotalMs m1 m2 f =
           decVal m1 * 60000 + decVal m2 * 1000 + (if length f = 2 then decVal f * 10 else decVal f)"
    unfolding lrcTotalMs_def Let_def a1(1) a2(1) a3(1) m1 m2 m3 s1 s2 ..
  with a1 a2 a3 show ?thesis by simp
qed

lemma digitChar_digit: "d < 10 \<Longrightarrow> isDigit (digitChar d) \<and> digitVal (digitChar d) = int d"
proof -
  assume "d < 10"
  then have "d \<in> {0, 1, 2, 3, 4, 5, 6, 7, 8, 9}" by auto
  then show ?thesis
    by (auto simp: digitChar_def isDigit_def digitVal_def)
qed

lemma natDigits_small:
  "n < 100 \<Longrightarrow> natDigits n = (if n < 10 then [digitChar n] else [digitChar (n div 10), digitChar (n mod 10)])"
  by (subst natDigits.simps, subst natDigits.simps) auto

lemma fmtInt0_2:
  assumes "0 \<le> x" "x < 100"
  shows "fmtInt0 2 x = [digitChar (nat x div 10), digitChar (nat x mod 10)]"
proof -
  from assms have n: "nat x < 100" by simp
  show ?thesis
  proof (cases "nat x < 10")
    case True
    then have "nat x div 10 = 0" by simp
    moreover have "digitChar 0 = CHR ''0''" by (simp add: digitChar_def)
    ultimately show ?thesis using assms True
      by (simp add: fmtInt0_def natDigits_small[OF n] numeral_2_eq_2)
  next
    case False
    then show ?thesis using assms by (simp add: fmtInt0_def natDigits_small[OF n])
  qed
qed

lemma two_digits:
  assumes "0 \<le> x" "x < 100"
  shows "list_all isDigit (fmtInt0 2 x) \<and> length (fmtInt0 2 x) = 2 \<and> decVal (fmtInt0 2 x) = x"
proof -
  have a: "nat x div 10 < 10" "nat x mod 10 < 10" using assms by auto
  have "int (nat x div 10) * 10 + int (nat x mod 10) = x" using assms by (simp add: zdiv_int zmod_int)
  then show ?thesis
    using digitChar_digit[OF a(1)] digitChar_digit[OF a(2)]
    by (simp add: fmtInt0_2[OF assms] decVal_def)
qed

lemma quo64_nonneg: "0 \<le> a \<Longrightarrow> 0 < b \<Longrightarrow> quo64 a b = a div b"
  by (cases "a = 0") (simp_all add: quo64_def)

lemma rem64_nonneg: "0 \<le> a \<Longrightarrow> 0 < b \<Longrightarrow> rem64 a b = a mod b"
  by (cases "a = 0") (simp_all add: rem64_def)

lemma msToLrcTime_nonneg:
  assumes "0 \<le> ms"
  shows "msToLrcTime ms =
     ''['' @ fmtInt0 2 (ms div 1000 div 60) @ '':'' @ fmtInt0 2 (ms div 1000 mod 60) @ ''.'' @
     fmtInt0 2 (ms mod 1000 div 10) @ '']''"
proof -
  have a: "0 \<le> ms div 1000" "0 \<le> ms mod 1000" using assms by simp_all
  show ?thesis
    unfolding msToLrcTime_def Let_def
    by (simp add: quo64_nonneg[OF assms] rem64_nonneg[OF assms] quo64_nonneg[OF a(1)]
        rem64_nonneg[OF a(1)] quo64_nonneg[OF a(2)])
qed

lemma lrcTimeRe_label:
  assumes "list_all isDigit a" "length a = 2" "list_all isDigit b" "length b = 2"
    "list_all isDigit c" "length c = 2"
  shows "lrcTimeRe (''['' @ a @ '':'' @ b @ ''.'' @ c @ '']'') = Some (a, b, c, [])"
proof -
  from assms(1,2) obtain a1 a2 where a: "a = [a1, a2]" "isDigit a1" "isDigit a2"
    by (cases a; cases "tl a") auto
  from assms(3,4) obtain b1 b2 where b: "b = [b1, b2]" "isDigit b1" "isDigit b2"
    by (cases b; cases "tl b") auto
  from assms(5,6) obtain c1 c2 where c: "c = [c1, c2]" "isDigit c1" "isDigit c2"
    by (cases c; cases "tl c") auto
  show ?thesis unfolding a b c lrcTimeRe_def using a b c by simp
qed

lemma lrcTotalMs_range:
  assumes "lrcTimeRe line = Some (m1, m2, f, rest)"
  shows "0 \<le> lrcTotalMs m1 m2 f \<and> lrcTotalMs m1 m2 f \<le> 6039999"
proof -
  note v = lrcTotalMs_value[OF assms]
  from v have ms: "lrcTotalMs m1 m2 f =
      decVal m1 * 60000 + decVal m2 * 1000 + (if length f = 2 then decVal f * 10 else decVal f)"
    by simp
  show ?thesis unfolding ms using v by (auto split: if_splits)
qed

lemma recompose_ms:
  fixes ms :: int
  shows "ms div 1000 div 60 * 60000 + ms div 1000 mod 60 * 1000 + ms mod 1000 div 10 * 10 =
         ms - ms mod 10"
proof -
  define s where "s = ms div 1000"
  define r where "r = ms mod 1000"
  have e: "\<And>x y :: int. x * 60000 + y * 1000 = (x * 60 + y) * 1000" by simp
  have a: "s div 60 * 60 + s mod 60 = s" by simp
  have b: "r div 10 * 10 = r - r mod 10" by (simp add: minus_mod_eq_div_mult)
  have c: "r mod 10 = ms mod 10" unfolding r_def by (simp add: mod_mod_cancel)
  have d: "s * 1000 + r = ms" unfolding s_def r_def by simp
  have "s div 60 * 60000 + s mod 60 * 1000 + r div 10 * 10 = s * 1000 + (r - r mod 10)"
    unfolding e[of "s div 60" "s mod 60"] a b ..
  also have "\<dots> = ms - ms mod 10" using c d by linarith
  finally show ?thesis unfolding s_def r_def .
qed

lemma reencode_decodes:
  assumes "0 \<le> ms" "ms < 6000000"
  shows "decodeLrcTime (msToLrcTime ms) = Some (ms - ms mod 10)"
proof -
  let ?M = "ms div 1000 div 60" and ?S = "ms div 1000 mod 60" and ?C = "ms mod 1000 div 10"
  have M: "0 \<le> ?M" "?M < 100" using assms by auto
  have S: "0 \<le> ?S" "?S < 100" using assms
    by simp (rule less_trans[OF pos_mod_bound], simp_all)
  have C: "0 \<le> ?C" "?C < 100" using assms by auto
  note dM = two_digits[OF M] and dS = two_digits[OF S] and dC = two_digits[OF C]
  have re: "lrcTimeRe (msToLrcTime ms) = Some (fmtInt0 2 ?M, fmtInt0 2 ?S, fmtInt0 2 ?C, [])"
    unfolding msToLrcTime_nonneg[OF assms(1)]
    using dM dS dC by (intro lrcTimeRe_label) simp_all
  from lrcTotalMs_value[OF re] dM dS dC
  have "lrcTotalMs (fmtInt0 2 ?M) (fmtInt0 2 ?S) (fmtInt0 2 ?C) = ?M * 60000 + ?S * 1000 + ?C * 10"
    by simp
  also have "\<dots> = ms - ms mod 10" by (rule recompose_ms)
  finally show ?thesis by (simp add: decodeLrcTime_def re)
qed

lemma reencode_three_digit_minutes:
  assumes "6000000 \<le> ms" "ms \<le> 6039999"
  shows "decodeLrcTime (msToLrcTime ms) = None"
proof -
  have nn: "0 \<le> ms" using assms by simp
  have "ms div 1000 div 60 = 100" using assms by simp
  moreover have "fmtInt0 2 100 = ''100''" by code_simp
  ultimately have "\<exists>r. msToLrcTime ms = ''[100'' @ r"
    unfolding msToLrcTime_nonneg[OF nn] by simp
  then obtain r where r: "msToLrcTime ms = ''[100'' @ r" by blast
  have "lrcTimeRe (''[100'' @ r) = None"
    unfolding lrcTimeRe_def by (simp split: list.splits)
  then show ?thesis by (simp add: decodeLrcTime_def r)
qed

lemma digitChar_inv: "isDigit a \<Longrightarrow> digitChar (nat (digitVal a)) = a"
proof -
  assume d: "isDigit a"
  let ?n = "nat (digitVal a)"
  from d have n: "?n < 10" and v: "int ?n = digitVal a" by (auto simp: isDigit_def digitVal_def)
  from digitChar_digit[OF n] v have "digitVal (digitChar ?n) = digitVal a" by simp
  then have "(of_char (digitChar ?n) :: nat) = of_char a" by (simp add: digitVal_def)
  then show ?thesis by simp
qed

lemma fmtInt0_2_decVal:
  assumes "list_all isDigit m" "length m = 2"
  shows "fmtInt0 2 (decVal m) = m"
proof -
  from assms obtain a b where m: "m = [a, b]" "isDigit a" "isDigit b"
    by (cases m; cases "tl m") auto
  have v: "decVal m = digitVal a * 10 + digitVal b" by (simp add: m decVal_def)
  have ra: "0 \<le> digitVal a" "digitVal a \<le> 9" and rb: "0 \<le> digitVal b" "digitVal b \<le> 9"
    using m by (auto simp: isDigit_def digitVal_def)
  have r: "0 \<le> decVal m" "decVal m < 100" unfolding v using ra rb by auto
  have "nat (decVal m) div 10 = nat (digitVal a)" "nat (decVal m) mod 10 = nat (digitVal b)"
    unfolding v using ra rb by (auto simp: nat_add_distrib nat_mult_distrib)
  then have "[digitChar (nat (decVal m) div 10), digitChar (nat (decVal m) mod 10)] = m"
    using digitChar_inv[OF m(2)] digitChar_inv[OF m(3)] by (simp only: m(1))
  with fmtInt0_2[OF r] show ?thesis by simp
qed

lemma lrcTimeRe_prefix:
  assumes "lrcTimeRe line = Some (m1, m2, f, rest)"
  shows "line = ''['' @ m1 @ '':'' @ m2 @ ''.'' @ f @ '']'' @ rest \<and> CHR 0x0A \<notin> set rest"
  using assms unfolding lrcTimeRe_def
  by (auto split: list.splits if_splits)

lemma msToLrcTime_own_label:
  assumes re: "lrcTimeRe line = Some (m1, m2, f, rest)" and f: "length f = 2" and s: "decVal m2 < 60"
  shows "msToLrcTime (lrcTotalMs m1 m2 f) = ''['' @ m1 @ '':'' @ m2 @ ''.'' @ f @ '']''"
proof -
  note g = lrcTimeRe_groups[OF re] and v = lrcTotalMs_value[OF re]
  let ?ms = "lrcTotalMs m1 m2 f"
  have ms: "?ms = (decVal m1 * 60 + decVal m2) * 1000 + decVal f * 10" using v f by simp
  have c: "0 \<le> decVal f * 10" "decVal f * 10 < 1000" using v f by auto
  have gen: "\<And>k c :: int. 0 \<le> c \<Longrightarrow> c < 1000 \<Longrightarrow>
      (k * 1000 + c) div 1000 = k \<and> (k * 1000 + c) mod 1000 = c"
    by auto
  have q: "?ms div 1000 = decVal m1 * 60 + decVal m2" unfolding ms using gen[OF c] by blast
  have r: "?ms mod 1000 = decVal f * 10" unfolding ms using gen[OF c] by blast
  have M: "?ms div 1000 div 60 = decVal m1" unfolding q using v s by simp
  have S: "?ms div 1000 mod 60 = decVal m2" unfolding q using v s by simp
  have C: "?ms mod 1000 div 10 = decVal f" unfolding r by simp
  have nn: "0 \<le> ?ms" using lrcTotalMs_range[OF re] by simp
  show ?thesis
    unfolding msToLrcTime_nonneg[OF nn] M S C
    using g f by (simp add: fmtInt0_2_decVal)
qed

lemma natDigits_digits: "list_all isDigit (natDigits n)"
proof (induction n rule: natDigits.induct)
  case (1 n)
  show ?case
  proof (cases "n < 10")
    case True
    then show ?thesis using digitChar_digit[of n] by (subst natDigits.simps) simp
  next
    case False
    have "n mod 10 < 10" by simp
    from digitChar_digit[OF this] "1.IH"[OF False] False show ?thesis
      by (subst natDigits.simps) simp
  qed
qed

lemma fmtInt0_no_LF: "0 \<le> x \<Longrightarrow> CHR 0x0A \<notin> set (fmtInt0 w x)"
proof -
  assume "0 \<le> x"
  have "\<forall>c\<in>set (natDigits (nat x)). isDigit c" using natDigits_digits[of "nat x"] by (simp add: list_all_iff)
  then have "CHR 0x0A \<notin> set (natDigits (nat x))" by (auto simp: isDigit_def)
  with \<open>0 \<le> x\<close> show ?thesis by (auto simp: fmtInt0_def)
qed

lemma msToLrcTime_no_LF: "0 \<le> ms \<Longrightarrow> CHR 0x0A \<notin> set (msToLrcTime ms)"
proof -
  assume nn: "0 \<le> ms"
  have a: "0 \<le> ms div 1000 div 60" "0 \<le> ms div 1000 mod 60" "0 \<le> ms mod 1000 div 10"
    using nn by (simp_all add: pos_imp_zdiv_nonneg_iff)
  show ?thesis
    unfolding msToLrcTime_nonneg[OF nn]
    using fmtInt0_no_LF[OF a(1), of 2] fmtInt0_no_LF[OF a(2), of 2] fmtInt0_no_LF[OF a(3), of 2]
    by simp
qed

text \<open>
  Claim C1, as amended. A time stamp that matches the pattern decodes to \<open>ms\<close> between 0 and
  6039999. When \<open>ms\<close> is below 6000000 the encoded label decodes again, to \<open>ms\<close> cut down to
  a multiple of 10: to \<open>ms\<close> itself when the fractional field has two digits or \<open>ms\<close> is a
  multiple of 10. From 6000000 on (minutes 99 with seconds 60 to 99) the encoded label has
  three minute digits and does not match the pattern.
\<close>

theorem lrc_time_reencode:
  assumes "lrcTimeRe line = Some (m1, m2, f, rest)" and "ms = lrcTotalMs m1 m2 f"
  shows "decodeLrcTime line = Some ms \<and> 0 \<le> ms \<and> ms \<le> 6039999 \<and>
         (ms < 6000000 \<longrightarrow> decodeLrcTime (msToLrcTime ms) = Some (ms - ms mod 10)) \<and>
         (ms < 6000000 \<and> (length f = 2 \<or> ms mod 10 = 0) \<longrightarrow>
            decodeLrcTime (msToLrcTime ms) = Some ms) \<and>
         (6000000 \<le> ms \<longrightarrow> decodeLrcTime (msToLrcTime ms) = None)"
proof -
  note v = lrcTotalMs_value[OF assms(1)]
  have d: "decodeLrcTime line = Some ms" by (simp add: decodeLrcTime_def assms)
  have ms: "ms = decVal m1 * 60000 + decVal m2 * 1000 + (if length f = 2 then decVal f * 10 else decVal f)"
    using v assms(2) by simp
  have lo: "0 \<le> ms" and hi: "ms \<le> 6039999"
    using lrcTotalMs_range[OF assms(1)] assms(2) by simp_all
  have two: "length f = 2 \<longrightarrow> ms mod 10 = 0"
  proof
    assume "length f = 2"
    then have "ms = 10 * (decVal m1 * 6000 + decVal m2 * 100 + decVal f)" unfolding ms by simp
    then show "ms mod 10 = 0" by simp
  qed
  have 1: "ms < 6000000 \<longrightarrow> decodeLrcTime (msToLrcTime ms) = Some (ms - ms mod 10)"
    using reencode_decodes[OF lo] by simp
  have 2: "ms < 6000000 \<and> (length f = 2 \<or> ms mod 10 = 0) \<longrightarrow>
            decodeLrcTime (msToLrcTime ms) = Some ms"
    using 1 two by auto
  have 3: "6000000 \<le> ms \<longrightarrow> decodeLrcTime (msToLrcTime ms) = None"
    using reencode_three_digit_minutes[OF _ hi] by simp
  from d lo hi 1 2 3 show ?thesis by blast
qed

theorem lrc_time_reencode_witness:
  "lrcTimeRe ''[03:25.47]la'' = Some (''03'', ''25'', ''47'', ''la'') \<and>
   lrcTotalMs ''03'' ''25'' ''47'' = 205470 \<and>
   msToLrcTime 205470 = ''[03:25.47]'' \<and>
   decodeLrcTime (msToLrcTime 205470) = Some 205470"
proof -
  have h: "lrcTimeRe ''[03:25.47]la'' = Some (''03'', ''25'', ''47'', ''la'')" by code_simp
  have v: "lrcTotalMs ''03'' ''25'' ''47'' = 205470" by code_simp
  have e: "msToLrcTime 205470 = ''[03:25.47]''" by code_simp
  from lrc_time_reencode[OF h v[symmetric]]
  have "decodeLrcTime (msToLrcTime 205470) = Some 205470" by simp
  with h v e show ?thesis by blast
qed

text \<open>
  Claim C1 as stated fails for a three-digit fractional field whose last digit is not 0
  (123 ms is encoded as 12 centiseconds and decodes to 120 ms) and for minutes 99 with
  seconds from 60 (6000000 ms is encoded with the minutes 100).
\<close>

theorem lrc_time_reencode_counterexample:
  "decodeLrcTime ''[00:00.123]'' = Some 123 \<and>
   msToLrcTime 123 = ''[00:00.12]'' \<and>
   decodeLrcTime (msToLrcTime 123) = Some 120 \<and>
   decodeLrcTime ''[99:60.00]'' = Some 6000000 \<and>
   msToLrcTime 6000000 = ''[100:00.00]'' \<and>
   decodeLrcTime (msToLrcTime 6000000) = None"
  by code_simp

section \<open>Blank text\<close>

text \<open>
  A text is blank (\<open>TrimSpace\<close> leaves nothing of it) exactly when each of its lines is.
  The encodings of the space runes are prefix-free, and a line feed byte occurs in none
  of them but the line feed itself.
\<close>

lemma spaceRunes_nonempty: "p \<in> set spaceRunes \<Longrightarrow> p \<noteq> []"
  by (auto simp: spaceRunes_def)

lemma spaceRunes_LF: "p \<in> set spaceRunes \<Longrightarrow> p = [CHR 0x0A] \<or> CHR 0x0A \<notin> set p"
  by (auto simp: spaceRunes_def)

lemma spaceRunes_prefix_free_table:
  "list_all (\<lambda>p. list_all (\<lambda>q. take (min (length p) (length q)) p = take (min (length p) (length q)) q
       \<longrightarrow> p = q) spaceRunes) spaceRunes"
  by code_simp

lemma spaceRunes_prefix_free:
  assumes "p \<in> set spaceRunes" "q \<in> set spaceRunes" "HasPrefix (p @ r) q"
  shows "q = p"
proof -
  from assms(3) have "take (length q) (p @ r) = q" by (simp add: HasPrefix_def)
  then have "take (min (length p) (length q)) (take (length q) (p @ r)) = take (min (length p) (length q)) q"
    by simp
  then have "take (min (length p) (length q)) p = take (min (length p) (length q)) q"
    by (simp add: min_def split: if_splits)
  with spaceRunes_prefix_free_table assms(1,2) show ?thesis
    by (auto simp: list_all_iff)
qed

lemma leadingSpace_rune:
  assumes "p \<in> set spaceRunes"
  shows "leadingSpace (p @ r) = length p"
proof -
  have "HasPrefix (p @ r) p" by (simp add: HasPrefix_def)
  with assms have "find (HasPrefix (p @ r)) spaceRunes \<noteq> None"
    by (auto simp: find_None_iff)
  then obtain q where q: "find (HasPrefix (p @ r)) spaceRunes = Some q" by auto
  then have "q \<in> set spaceRunes" "HasPrefix (p @ r) q"
    by (auto simp: find_Some_iff)
  with assms have "q = p" by (auto dest: spaceRunes_prefix_free)
  with q show ?thesis by (simp add: leadingSpace_def)
qed

lemma leadingSpace_split:
  assumes "leadingSpace s \<noteq> 0"
  obtains p r where "p \<in> set spaceRunes" "s = p @ r" "leadingSpace s = length p"
    "r = drop (leadingSpace s) s"
proof -
  from assms obtain q where q: "find (HasPrefix s) spaceRunes = Some q"
    by (auto simp: leadingSpace_def split: option.splits)
  then have 1: "q \<in> set spaceRunes" and 2: "take (length q) s = q"
    by (auto simp: find_Some_iff HasPrefix_def)
  from q have 3: "leadingSpace s = length q" by (simp add: leadingSpace_def)
  have "s = take (length q) s @ drop (length q) s" by simp
  then have "s = q @ drop (length q) s" unfolding 2 .
  with 1 3 that show thesis by simp
qed

lemma trailingSpace_split:
  assumes "trailingSpace s \<noteq> 0"
  obtains r p where "p \<in> set spaceRunes" "s = r @ p" "trailingSpace s = length p"
    "r = take (length s - trailingSpace s) s"
proof -
  from assms obtain q where q: "find (HasSuffix s) spaceRunes = Some q"
    by (auto simp: trailingSpace_def split: option.splits)
  then have 1: "q \<in> set spaceRunes" and 2: "drop (length s - length q) s = q"
    by (auto simp: find_Some_iff HasSuffix_def)
  from q have 3: "trailingSpace s = length q" by (simp add: trailingSpace_def)
  have "s = take (length s - length q) s @ drop (length s - length q) s" by simp
  then have "s = take (length s - length q) s @ q" unfolding 2 .
  with 1 3 that show thesis by simp
qed

lemma trimLeft_rune: "p \<in> set spaceRunes \<Longrightarrow> trimLeft (p @ r) = trimLeft r"
  by (subst trimLeft.simps) (simp add: leadingSpace_rune spaceRunes_nonempty)

lemma trimLeft_Nil: "trimLeft [] = []"
  by (subst trimLeft.simps) (simp add: leadingSpace_def spaceRunes_def HasPrefix_def)

lemma trimRight_Nil: "trimRight [] = []"
  by (subst trimRight.simps) (simp add: trailingSpace_def spaceRunes_def HasSuffix_def)

lemma trimLeft_no_leading: "leadingSpace (trimLeft s) = 0"
proof (induction s rule: trimLeft.induct)
  case (1 s)
  show ?case
  proof (cases "leadingSpace s = 0")
    case True
    then show ?thesis by (subst trimLeft.simps) simp
  next
    case False
    with "1.IH" show ?thesis by (subst trimLeft.simps) simp
  qed
qed

lemma leadingSpace_prefix:
  assumes "leadingSpace a \<noteq> 0"
  shows "leadingSpace (a @ b) \<noteq> 0"
proof -
  from leadingSpace_split[OF assms] obtain p r where p: "p \<in> set spaceRunes" and a: "a = p @ r"
    by blast
  have "leadingSpace (a @ b) = length p"
    unfolding a using leadingSpace_rune[OF p, of "r @ b"] by simp
  with p show ?thesis by (simp add: spaceRunes_nonempty)
qed

lemma trimRight_empty: "trimRight u = [] \<Longrightarrow> u = [] \<or> leadingSpace u \<noteq> 0"
proof (induction u rule: trimRight.induct)
  case (1 u)
  show ?case
  proof (cases "trailingSpace u = 0")
    case True
    with "1.prems" have "u = []" by (subst (asm) trimRight.simps) simp
    then show ?thesis by simp
  next
    case False
    from trailingSpace_split[OF False] obtain r p where p: "p \<in> set spaceRunes"
      and u: "u = r @ p" and r: "r = take (length u - trailingSpace u) u" by blast
    from "1.prems" False have "trimRight r = []"
      unfolding r by (subst (asm) trimRight.simps) simp
    from "1.IH"[OF False this[unfolded r]] have "r = [] \<or> leadingSpace r \<noteq> 0"
      unfolding r[symmetric] .
    then show ?thesis
    proof
      assume "r = []"
      then have "leadingSpace u = length p"
        unfolding u using leadingSpace_rune[OF p, of "[]"] by simp
      with p show ?thesis by (simp add: spaceRunes_nonempty)
    next
      assume "leadingSpace r \<noteq> 0"
      from leadingSpace_prefix[OF this, of p] show ?thesis unfolding u by simp
    qed
  qed
qed

lemma TrimSpace_empty_iff: "TrimSpace s = [] \<longleftrightarrow> trimLeft s = []"
proof
  assume "TrimSpace s = []"
  then have "trimRight (trimLeft s) = []" by (simp add: TrimSpace_def)
  from trimRight_empty[OF this] trimLeft_no_leading[of s] show "trimLeft s = []" by auto
next
  assume "trimLeft s = []"
  then show "TrimSpace s = []" by (simp add: TrimSpace_def trimRight_Nil)
qed

lemma Split_nonempty: "Split s \<noteq> []"
  by (induction s) (auto simp: Let_def)

lemma Split_append_noLF:
  "CHR 0x0A \<notin> set p \<Longrightarrow> Split (p @ r) = (p @ hd (Split r)) # tl (Split r)"
  using Split_nonempty[of r] by (induction p) (auto simp: Let_def)

lemma blank_lines:
  "trimLeft s = [] \<Longrightarrow> l \<in> set (Split s) \<Longrightarrow> trimLeft l = []"
proof (induction s arbitrary: l rule: trimLeft.induct)
  case (1 s)
  show ?case
  proof (cases "leadingSpace s = 0")
    case True
    with "1.prems"(1) have "s = []" by (subst (asm) trimLeft.simps) simp
    with "1.prems"(2) show ?thesis by (simp add: trimLeft_Nil)
  next
    case False
    from leadingSpace_split[OF False] obtain p r where p: "p \<in> set spaceRunes"
      and s: "s = p @ r" and r: "r = drop (leadingSpace s) s" by blast
    from "1.prems"(1) False have tr: "trimLeft r = []"
      unfolding r by (subst (asm) trimLeft.simps) simp
    have ih: "\<And>l. l \<in> set (Split r) \<Longrightarrow> trimLeft l = []"
      using "1.IH"[OF False tr[unfolded r]] unfolding r[symmetric] .
    from spaceRunes_LF[OF p] show ?thesis
    proof
      assume lf: "p = [CHR 0x0A]"
      have "Split s = [] # Split r" unfolding s lf by (simp add: Let_def)
      with "1.prems"(2) ih show ?thesis by (auto simp: trimLeft_Nil)
    next
      assume "CHR 0x0A \<notin> set p"
      from Split_append_noLF[OF this, of r]
      have sp: "Split s = (p @ hd (Split r)) # tl (Split r)" unfolding s .
      have h: "hd (Split r) \<in> set (Split r)" using Split_nonempty by simp
      have t: "set (tl (Split r)) \<subseteq> set (Split r)" by (metis list.set_sel(2) subsetI tl_Nil)
      from "1.prems"(2) sp have "l = p @ hd (Split r) \<or> l \<in> set (tl (Split r))" by simp
      then show ?thesis
      proof
        assume "l = p @ hd (Split r)"
        then show ?thesis using trimLeft_rune[OF p] ih[OF h] by simp
      next
        assume "l \<in> set (tl (Split r))"
        with t ih show ?thesis by blast
      qed
    qed
  qed
qed

lemma blank_text_lines: "TrimSpace s = [] \<Longrightarrow> l \<in> set (Split s) \<Longrightarrow> TrimSpace l = []"
  by (simp add: TrimSpace_empty_iff blank_lines)

lemma joinLF_Cons: "ls \<noteq> [] \<Longrightarrow> joinLF (l # ls) = l @ [CHR 0x0A] @ joinLF ls"
  by (cases ls) simp_all

lemma joinLF_Split: "joinLF (Split s) = s"
proof (induction s)
  case Nil
  show ?case by simp
next
  case (Cons c cs)
  obtain h t where ht: "Split cs = h # t" using Split_nonempty[of cs] by (cases "Split cs") auto
  show ?case
  proof (cases "c = CHR 0x0A")
    case True
    then show ?thesis using Cons.IH by (simp add: Let_def joinLF_Cons Split_nonempty)
  next
    case False
    show ?thesis
    proof (cases t)
      case Nil
      with False ht Cons.IH show ?thesis by (simp add: Let_def)
    next
      case (Cons l' ls)
      with False ht Cons.IH show ?thesis by (simp add: Let_def)
    qed
  qed
qed

lemma trimLeft_append_blank: "trimLeft a = [] \<Longrightarrow> trimLeft (a @ b) = trimLeft b"
proof (induction a rule: trimLeft.induct)
  case (1 a)
  show ?case
  proof (cases "leadingSpace a = 0")
    case True
    with "1.prems" have "a = []" by (subst (asm) trimLeft.simps) simp
    then show ?thesis by simp
  next
    case False
    from leadingSpace_split[OF False] obtain p r where p: "p \<in> set spaceRunes"
      and a: "a = p @ r" and r: "r = drop (leadingSpace a) a" by blast
    from "1.prems" False have tr: "trimLeft r = []"
      unfolding r by (subst (asm) trimLeft.simps) simp
    have "trimLeft (r @ b) = trimLeft b"
      using "1.IH"[OF False tr[unfolded r]] unfolding r[symmetric] .
    then show ?thesis unfolding a using trimLeft_rune[OF p, of "r @ b"] by simp
  qed
qed

lemma trimLeft_LF: "trimLeft (CHR 0x0A # s) = trimLeft s"
proof -
  have "[CHR 0x0A] \<in> set spaceRunes" by (simp add: spaceRunes_def)
  from trimLeft_rune[OF this, of s] show ?thesis by simp
qed

lemma joinLF_blank: "\<forall>l\<in>set ls. trimLeft l = [] \<Longrightarrow> trimLeft (joinLF ls) = []"
proof (induction ls rule: joinLF.induct)
  case 1
  show ?case by (simp add: trimLeft_Nil)
next
  case (2 l)
  then show ?case by simp
next
  case (3 l l' ls)
  then have "trimLeft (joinLF (l' # ls)) = []" by simp
  moreover from 3 have "trimLeft l = []" by simp
  ultimately show ?case by (simp add: trimLeft_append_blank trimLeft_LF)
qed

lemma blank_text_iff: "TrimSpace s = [] \<longleftrightarrow> (\<forall>l\<in>set (Split s). TrimSpace l = [])"
proof
  assume "TrimSpace s = []"
  then show "\<forall>l\<in>set (Split s). TrimSpace l = []" by (auto dest: blank_text_lines)
next
  assume "\<forall>l\<in>set (Split s). TrimSpace l = []"
  then have "trimLeft (joinLF (Split s)) = []"
    by (intro joinLF_blank) (simp add: TrimSpace_empty_iff)
  then show "TrimSpace s = []" by (simp add: joinLF_Split TrimSpace_empty_iff)
qed

section \<open>Properties of the LRC timeline parser\<close>

lemma lrcTimeRe_Nil: "lrcTimeRe [] = None"
  by (simp add: lrcTimeRe_def)

lemma parseLrcTimedLines_loop_eq:
  "parseLrcTimedLines_loop lines timedLines = timedLines @ List.map_filter timedEntry lines"
proof (induction lines arbitrary: timedLines)
  case Nil
  show ?case by (simp add: List.map_filter_simps)
next
  case (Cons line0 lines)
  show ?case
  proof (cases "lrcTimeRe (TrimSpace line0)")
    case None
    then show ?thesis
      by (simp add: Cons.IH List.map_filter_simps timedEntry_def Let_def)
  next
    case (Some g)
    obtain m1 m2 f m4 where g: "g = (m1, m2, f, m4)" by (cases g) auto
    from Some g have "TrimSpace line0 \<noteq> []" by (auto simp: lrcTimeRe_Nil)
    with Some g show ?thesis
      by (simp add: Cons.IH List.map_filter_simps timedEntry_def Let_def)
  qed
qed

lemma blank_no_entries:
  assumes "TrimSpace lrc = []"
  shows "List.map_filter timedEntry (Split lrc) = []"
proof -
  have "\<forall>l\<in>set (Split lrc). timedEntry l = None"
    using assms by (auto simp: timedEntry_def lrcTimeRe_Nil dest: blank_text_lines)
  then show ?thesis by (simp add: List.map_filter_def filter_empty_conv)
qed

lemma timedEntry_Some:
  "timedEntry line = Some e \<longleftrightarrow>
     (\<exists>m1 m2 f m4. lrcTimeRe (TrimSpace line) = Some (m1, m2, f, m4) \<and>
        TrimSpace m4 \<noteq> [] \<and> TrimSpace m4 \<noteq> ''//'' \<and>
        \<not> Contains (TrimSpace m4) watermarkQQ \<and> \<not> Contains (TrimSpace m4) watermarkMade \<and>
        e = \<lparr>Time = lrcTotalMs m1 m2 f, Content = TrimSpace m4\<rparr>)"
  by (auto simp: timedEntry_def split: option.splits)

lemma timedEntry_props:
  assumes "timedEntry line = Some e"
  shows "timeValue (Time e) \<and> Time e \<le> 6039999 \<and> Content e \<noteq> []"
proof -
  from assms obtain m1 m2 f m4 where re: "lrcTimeRe (TrimSpace line) = Some (m1, m2, f, m4)"
    and e: "e = \<lparr>Time = lrcTotalMs m1 m2 f, Content = TrimSpace m4\<rparr>" and c: "TrimSpace m4 \<noteq> []"
    unfolding timedEntry_Some by blast
  from lrcTotalMs_range[OF re] have "0 \<le> lrcTotalMs m1 m2 f" "lrcTotalMs m1 m2 f \<le> 6039999"
    by auto
  with e c show ?thesis by (simp add: timeValue_def maxInt64_def)
qed

lemma stableSortSlice_contract: "sortSliceContract stableSortSlice"
  by (simp add: sortSliceContract_def stableSortSlice_def)

lemma reversingSortSlice_contract: "sortSliceContract reversingSortSlice"
  by (simp add: sortSliceContract_def reversingSortSlice_def)

lemma parseLrcTimedLines_mset:
  assumes "sortSliceContract sortSlice"
  shows "mset (parseLrcTimedLines sortSlice lrc) = mset (List.map_filter timedEntry (Split lrc))"
proof (cases "TrimSpace lrc = []")
  case True
  then show ?thesis by (simp add: parseLrcTimedLines_def blank_no_entries)
next
  case False
  then show ?thesis using assms
    by (simp add: parseLrcTimedLines_def parseLrcTimedLines_loop_eq sortSliceContract_def)
qed

lemma parseLrcTimedLines_entries:
  assumes "sortSliceContract sortSlice" "e \<in> set (parseLrcTimedLines sortSlice lrc)"
  shows "timeValue (Time e) \<and> Time e \<le> 6039999 \<and> Content e \<noteq> []"
proof -
  from assms(2) have "e \<in># mset (parseLrcTimedLines sortSlice lrc)" by simp
  then have "e \<in> set (List.map_filter timedEntry (Split lrc))"
    unfolding parseLrcTimedLines_mset[OF assms(1)] by simp
  then obtain l where "timedEntry l = Some e" by (auto simp: List.map_filter_def)
  then show ?thesis by (rule timedEntry_props)
qed

text \<open>
  Claim C4, as amended. Whatever \<^verbatim>\<open>sort.Slice\<close> does within its contract, the parser returns
  the retained entries (each as often as it occurs) sorted ascending by time; an entry is
  retained exactly when its trimmed line matches the pattern and its trimmed text is not
  empty, is not \<^verbatim>\<open>//\<close> and contains neither watermark; blank input gives the empty sequence.
  The order of entries with equal times is the library's choice.
\<close>

theorem parseLrcTimedLines_sorted_retained:
  assumes "sortSliceContract sortSlice"
  shows "sorted (map Time (parseLrcTimedLines sortSlice lrcContent)) \<and>
         mset (parseLrcTimedLines sortSlice lrcContent) =
           mset (List.map_filter timedEntry (Split lrcContent)) \<and>
         (\<forall>line e. timedEntry line = Some e \<longleftrightarrow>
            (\<exists>m1 m2 f m4. lrcTimeRe (TrimSpace line) = Some (m1, m2, f, m4) \<and>
               TrimSpace m4 \<noteq> [] \<and> TrimSpace m4 \<noteq> ''//'' \<and>
               \<not> Contains (TrimSpace m4) watermarkQQ \<and> \<not> Contains (TrimSpace m4) watermarkMade \<and>
               e = \<lparr>Time = lrcTotalMs m1 m2 f, Content = TrimSpace m4\<rparr>)) \<and>
         (TrimSpace lrcContent = [] \<longrightarrow> parseLrcTimedLines sortSlice lrcContent = [])"
proof -
  have 1: "sorted (map Time (parseLrcTimedLines sortSlice lrcContent))"
    using assms by (simp add: parseLrcTimedLines_def sortSliceContract_def)
  have 2: "mset (parseLrcTimedLines sortSlice lrcContent) =
           mset (List.map_filter timedEntry (Split lrcContent))"
    by (rule parseLrcTimedLines_mset[OF assms])
  have 3: "\<forall>line e. timedEntry line = Some e \<longleftrightarrow>
            (\<exists>m1 m2 f m4. lrcTimeRe (TrimSpace line) = Some (m1, m2, f, m4) \<and>
               TrimSpace m4 \<noteq> [] \<and> TrimSpace m4 \<noteq> ''//'' \<and>
               \<not> Contains (TrimSpace m4) watermarkQQ \<and> \<not> Contains (TrimSpace m4) watermarkMade \<and>
               e = \<lparr>Time = lrcTotalMs m1 m2 f, Content = TrimSpace m4\<rparr>)"
    using timedEntry_Some by blast
  have 4: "TrimSpace lrcContent = [] \<longrightarrow> parseLrcTimedLines sortSlice lrcContent = []"
    by (simp add: parseLrcTimedLines_def)
  from 1 2 3 4 show ?thesis by blast
qed

theorem parseLrcTimedLines_sorted_retained_witness:
  "sortSliceContract stableSortSlice \<and>
   parseLrcTimedLines stableSortSlice
     (''[00:02.00]b'' @ LF @ '' [00:01.123] a '' @ LF @ ''[ti:x]'' @ LF @ ''[00:03.00]//'' @ LF @
      ''[00:01.12]'') =
     [\<lparr>Time = 1123, Content = ''a''\<rparr>, \<lparr>Time = 2000, Content = ''b''\<rparr>] \<and>
   sorted (map Time (parseLrcTimedLines stableSortSlice
     (''[00:02.00]b'' @ LF @ '' [00:01.123] a '' @ LF @ ''[ti:x]'' @ LF @ ''[00:03.00]//'' @ LF @
      ''[00:01.12]'')))"
proof -
  have v: "parseLrcTimedLines stableSortSlice
     (''[00:02.00]b'' @ LF @ '' [00:01.123] a '' @ LF @ ''[ti:x]'' @ LF @ ''[00:03.00]//'' @ LF @
      ''[00:01.12]'') =
     [\<lparr>Time = 1123, Content = ''a''\<rparr>, \<lparr>Time = 2000, Content = ''b''\<rparr>]"
    by code_simp
  from parseLrcTimedLines_sorted_retained[OF stableSortSlice_contract]
  have "sorted (map Time (parseLrcTimedLines stableSortSlice
     (''[00:02.00]b'' @ LF @ '' [00:01.123] a '' @ LF @ ''[ti:x]'' @ LF @ ''[00:03.00]//'' @ LF @
      ''[00:01.12]'')))" by blast
  with v stableSortSlice_contract show ?thesis by blast
qed

text \<open>
  Claim C4 as stated promises a stable sort, which the contract of \<^verbatim>\<open>sort.Slice\<close> does not:
  \<open>reversingSortSlice\<close> is within the contract and, on thirteen lines of which the first
  two have the same time, returns these two in the reverse of their input order.
\<close>

theorem parseLrcTimedLines_stable_counterexample:
  "sortSliceContract reversingSortSlice \<and>
   parseLrcTimedLines reversingSortSlice
     (''[00:05.00]a'' @ LF @ ''[00:05.00]b'' @ LF @ ''[00:06.00]c'' @ LF @ ''[00:07.00]d'' @ LF @
      ''[00:08.00]e'' @ LF @ ''[00:09.00]f'' @ LF @ ''[00:01.00]g'' @ LF @ ''[00:10.00]h'' @ LF @
      ''[00:11.00]i'' @ LF @ ''[00:12.00]j'' @ LF @ ''[00:13.00]k'' @ LF @ ''[00:14.00]l'' @ LF @
      ''[00:15.00]m'') =
     [\<lparr>Time = 1000, Content = ''g''\<rparr>, \<lparr>Time = 5000, Content = ''b''\<rparr>,
      \<lparr>Time = 5000, Content = ''a''\<rparr>, \<lparr>Time = 6000, Content = ''c''\<rparr>,
      \<lparr>Time = 7000, Content = ''d''\<rparr>, \<lparr>Time = 8000, Content = ''e''\<rparr>,
      \<lparr>Time = 9000, Content = ''f''\<rparr>, \<lparr>Time = 10000, Content = ''h''\<rparr>,
      \<lparr>Time = 11000, Content = ''i''\<rparr>, \<lparr>Time = 12000, Content = ''j''\<rparr>,
      \<lparr>Time = 13000, Content = ''k''\<rparr>, \<lparr>Time = 14000, Content = ''l''\<rparr>,
      \<lparr>Time = 15000, Content = ''m''\<rparr>]"
proof -
  have "parseLrcTimedLines reversingSortSlice
     (''[00:05.00]a'' @ LF @ ''[00:05.00]b'' @ LF @ ''[00:06.00]c'' @ LF @ ''[00:07.00]d'' @ LF @
      ''[00:08.00]e'' @ LF @ ''[00:09.00]f'' @ LF @ ''[00:01.00]g'' @ LF @ ''[00:10.00]h'' @ LF @
      ''[00:11.00]i'' @ LF @ ''[00:12.00]j'' @ LF @ ''[00:13.00]k'' @ LF @ ''[00:14.00]l'' @ LF @
      ''[00:15.00]m'') =
     [\<lparr>Time = 1000, Content = ''g''\<rparr>, \<lparr>Time = 5000, Content = ''b''\<rparr>,
      \<lparr>Time = 5000, Content = ''a''\<rparr>, \<lparr>Time = 6000, Content = ''c''\<rparr>,
      \<lparr>Time = 7000, Content = ''d''\<rparr>, \<lparr>Time = 8000, Content = ''e''\<rparr>,
      \<lparr>Time = 9000, Content = ''f''\<rparr>, \<lparr>Time = 10000, Content = ''h''\<rparr>,
      \<lparr>Time = 11000, Content = ''i''\<rparr>, \<lparr>Time = 12000, Content = ''j''\<rparr>,
      \<lparr>Time = 13000, Content = ''k''\<rparr>, \<lparr>Time = 14000, Content = ''l''\<rparr>,
      \<lparr>Time = 15000, Content = ''m''\<rparr>]"
    by code_simp
  with reversingSortSlice_contract show ?thesis by blast
qed

section \<open>Properties of the merged LRC\<close>

lemma mergeLrcWithTranslation_loop_eq:
  "mergeLrcWithTranslation_loop translations lines result =
     result @ concat (map (mergedLine translations) lines)"
proof (induction lines arbitrary: result)
  case Nil
  show ?case by simp
next
  case (Cons line0 lines)
  show ?case
  proof (cases "lrcTimeRe (TrimSpace line0)")
    case None
    then show ?thesis
      by (simp add: Cons.IH mergedLine_def translationLine_def decodeLrcTime_def Let_def)
  next
    case (Some g)
    obtain m1 m2 f m4 where g: "g = (m1, m2, f, m4)" by (cases g) auto
    with Some show ?thesis
      by (simp add: Cons.IH mergedLine_def translationLine_def decodeLrcTime_def Let_def)
  qed
qed

lemma decodeLrcTime_timeValue: "decodeLrcTime line = Some ms \<Longrightarrow> timeValue ms"
proof -
  assume "decodeLrcTime line = Some ms"
  then obtain m1 m2 f m4 where re: "lrcTimeRe line = Some (m1, m2, f, m4)" and ms: "ms = lrcTotalMs m1 m2 f"
    by (auto simp: decodeLrcTime_def split: option.splits)
  from lrcTotalMs_range[OF re] ms show ?thesis by (simp add: timeValue_def maxInt64_def)
qed

lemma translationLine_closest:
  assumes c: "sortSliceContract sortSlice"
    and nm: "\<not> isMetadataLine line" and d: "decodeLrcTime line = Some ms"
  shows "((\<forall>e\<in>set (parseLrcTimedLines sortSlice transLrc). 500 \<le> \<bar>Time e - ms\<bar>) \<longrightarrow>
            translationLine (parseLrcTimedLines sortSlice transLrc) line = []) \<and>
         ((\<exists>e\<in>set (parseLrcTimedLines sortSlice transLrc). \<bar>Time e - ms\<bar> < 500) \<longrightarrow>
            (\<exists>e\<in>set (parseLrcTimedLines sortSlice transLrc). \<bar>Time e - ms\<bar> < 500 \<and>
               (\<forall>e'\<in>set (parseLrcTimedLines sortSlice transLrc). \<bar>Time e - ms\<bar> \<le> \<bar>Time e' - ms\<bar>) \<and>
               translationLine (parseLrcTimedLines sortSlice transLrc) line =
                 msToLrcTime ms @ Content e @ LF))"
proof -
  let ?tr = "parseLrcTimedLines sortSlice transLrc"
  have tv: "\<forall>l\<in>set ?tr. timeValue (Time l)" using parseLrcTimedLines_entries[OF c] by blast
  have ne: "\<forall>l\<in>set ?tr. Content l \<noteq> []" using parseLrcTimedLines_entries[OF c] by blast
  have tl: "translationLine ?tr line =
      (if findClosestLine ms ?tr \<noteq> [] then msToLrcTime ms @ findClosestLine ms ?tr @ LF else [])"
    using nm d by (simp add: translationLine_def)
  from findClosestLine_cases[OF decodeLrcTime_timeValue[OF d] tv]
  show ?thesis
  proof
    assume far: "(\<forall>l\<in>set ?tr. 500 \<le> \<bar>Time l - ms\<bar>) \<and> findClosestLine ms ?tr = []"
    then have "translationLine ?tr line = []" by (simp add: tl)
    moreover from far have "\<not> (\<exists>e\<in>set ?tr. \<bar>Time e - ms\<bar> < 500)" by fastforce
    ultimately show ?thesis by blast
  next
    assume "\<exists>l\<in>set ?tr. findClosestLine ms ?tr = Content l \<and> \<bar>Time l - ms\<bar> < 500 \<and>
              (\<forall>l'\<in>set ?tr. \<bar>Time l - ms\<bar> \<le> \<bar>Time l' - ms\<bar>)"
    then obtain l where l: "l \<in> set ?tr" "findClosestLine ms ?tr = Content l" "\<bar>Time l - ms\<bar> < 500"
      "\<forall>l'\<in>set ?tr. \<bar>Time l - ms\<bar> \<le> \<bar>Time l' - ms\<bar>" by blast
    from l(1) ne have "Content l \<noteq> []" by blast
    with l(2) have t: "translationLine ?tr line = msToLrcTime ms @ Content l @ LF" by (simp add: tl)
    from l(1,3) have "\<not> (\<forall>e\<in>set ?tr. 500 \<le> \<bar>Time e - ms\<bar>)" by fastforce
    with l t show ?thesis by blast
  qed
qed

lemma trimLeft_subset: "set (trimLeft s) \<subseteq> set s"
proof (induction s rule: trimLeft.induct)
  case (1 s)
  show ?case
  proof (cases "leadingSpace s = 0")
    case True
    then show ?thesis by (subst trimLeft.simps) simp
  next
    case False
    from "1.IH"[OF False] set_drop_subset[of "leadingSpace s" s] False show ?thesis
      by (subst trimLeft.simps) auto
  qed
qed

lemma trimRight_subset: "set (trimRight s) \<subseteq> set s"
proof (induction s rule: trimRight.induct)
  case (1 s)
  show ?case
  proof (cases "trailingSpace s = 0")
    case True
    then show ?thesis by (subst trimRight.simps) simp
  next
    case False
    from "1.IH"[OF False] set_take_subset[of "length s - trailingSpace s" s] False show ?thesis
      by (subst trimRight.simps) auto
  qed
qed

lemma TrimSpace_subset: "set (TrimSpace s) \<subseteq> set s"
  unfolding TrimSpace_def using trimRight_subset[of "trimLeft s"] trimLeft_subset[of s] by blast

lemma parseLrcTimedLines_content_line:
  assumes "sortSliceContract sortSlice" "e \<in> set (parseLrcTimedLines sortSlice lrc)"
  shows "CHR 0x0A \<notin> set (Content e)"
proof -
  from assms(2) have "e \<in># mset (parseLrcTimedLines sortSlice lrc)" by simp
  then have "e \<in> set (List.map_filter timedEntry (Split lrc))"
    unfolding parseLrcTimedLines_mset[OF assms(1)] by simp
  then obtain l where "timedEntry l = Some e" by (auto simp: List.map_filter_def)
  then obtain m1 m2 f m4 where re: "lrcTimeRe (TrimSpace l) = Some (m1, m2, f, m4)"
    and e: "e = \<lparr>Time = lrcTotalMs m1 m2 f, Content = TrimSpace m4\<rparr>"
    unfolding timedEntry_Some by blast
  from lrcTimeRe_prefix[OF re] have "CHR 0x0A \<notin> set m4" by simp
  with TrimSpace_subset[of m4] e show ?thesis by auto
qed

text \<open>
  Claim C2, as amended. With a blank translation text the merged LRC is the original. With
  any other, it is made of the lines of the original in their order, each trimmed of
  surrounding white space and blank lines left out; a line that is not metadata and
  matches the time stamp pattern is followed at once by one line that ends with the text
  of a translation entry closest to its decoded time, when an entry is less than 500 ms
  away, and by nothing when none is; metadata lines and lines that do not match are
  followed by nothing. The translation line begins with the label of the line itself when
  that label has a two-digit fractional field and seconds below 60; for the other labels
  the statement leaves the label of the translation line open.
\<close>

theorem mergeLrcWithTranslation_lines:
  assumes "sortSliceContract sortSlice"
  shows "(TrimSpace transLrc = [] \<longrightarrow>
            mergeLrcWithTranslation sortSlice originalLrc transLrc = originalLrc) \<and>
         (TrimSpace transLrc \<noteq> [] \<longrightarrow>
            (\<exists>follow.
               mergeLrcWithTranslation sortSlice originalLrc transLrc =
                 concat (map (\<lambda>line0. if TrimSpace line0 = [] then []
                                        else TrimSpace line0 @ LF @ follow (TrimSpace line0))
                             (Split originalLrc)) \<and>
               (\<forall>line. isMetadataLine line \<or> lrcTimeRe line = None \<longrightarrow> follow line = []) \<and>
               (\<forall>line m1 m2 f rest.
                  \<not> isMetadataLine line \<and> lrcTimeRe line = Some (m1, m2, f, rest) \<longrightarrow>
                    line = ''['' @ m1 @ '':'' @ m2 @ ''.'' @ f @ '']'' @ rest \<and>
                    ((\<forall>e\<in>set (parseLrcTimedLines sortSlice transLrc).
                        500 \<le> \<bar>Time e - lrcTotalMs m1 m2 f\<bar>) \<longrightarrow> follow line = []) \<and>
                    ((\<exists>e\<in>set (parseLrcTimedLines sortSlice transLrc).
                        \<bar>Time e - lrcTotalMs m1 m2 f\<bar> < 500) \<longrightarrow>
                       (\<exists>e\<in>set (parseLrcTimedLines sortSlice transLrc).
                          \<bar>Time e - lrcTotalMs m1 m2 f\<bar> < 500 \<and>
                          (\<forall>e'\<in>set (parseLrcTimedLines sortSlice transLrc).
                             \<bar>Time e - lrcTotalMs m1 m2 f\<bar> \<le> \<bar>Time e' - lrcTotalMs m1 m2 f\<bar>) \<and>
                          (\<exists>label. follow line = label @ Content e @ LF \<and>
                             CHR 0x0A \<notin> set label \<and> CHR 0x0A \<notin> set (Content e)) \<and>
                          (length f = 2 \<and> decVal m2 < 60 \<longrightarrow>
                             follow line =
                               ''['' @ m1 @ '':'' @ m2 @ ''.'' @ f @ '']'' @ Content e @ LF))))))"
proof -
  let ?tr = "parseLrcTimedLines sortSlice transLrc"
  let ?follow = "translationLine ?tr"
  have 1: "TrimSpace transLrc = [] \<longrightarrow>
            mergeLrcWithTranslation sortSlice originalLrc transLrc = originalLrc"
    by (simp add: mergeLrcWithTranslation_def)
  have m: "mergedLine ?tr = (\<lambda>line0. if TrimSpace line0 = [] then []
                                        else TrimSpace line0 @ LF @ ?follow (TrimSpace line0))"
    by (rule ext) (simp add: mergedLine_def)
  have 2: "TrimSpace transLrc \<noteq> [] \<Longrightarrow>
            mergeLrcWithTranslation sortSlice originalLrc transLrc =
              concat (map (\<lambda>line0. if TrimSpace line0 = [] then []
                                        else TrimSpace line0 @ LF @ ?follow (TrimSpace line0))
                          (Split originalLrc))"
    unfolding m[symmetric]
    by (simp add: mergeLrcWithTranslation_def mergeLrcWithTranslation_loop_eq)
  have 3: "\<forall>line. isMetadataLine line \<or> lrcTimeRe line = None \<longrightarrow> ?follow line = []"
    by (auto simp: translationLine_def decodeLrcTime_def)
  have 4: "\<forall>line m1 m2 f rest.
                  \<not> isMetadataLine line \<and> lrcTimeRe line = Some (m1, m2, f, rest) \<longrightarrow>
                    line = ''['' @ m1 @ '':'' @ m2 @ ''.'' @ f @ '']'' @ rest \<and>
                    ((\<forall>e\<in>set ?tr. 500 \<le> \<bar>Time e - lrcTotalMs m1 m2 f\<bar>) \<longrightarrow> ?follow line = []) \<and>
                    ((\<exists>e\<in>set ?tr. \<bar>Time e - lrcTotalMs m1 m2 f\<bar> < 500) \<longrightarrow>
                       (\<exists>e\<in>set ?tr.
                          \<bar>Time e - lrcTotalMs m1 m2 f\<bar> < 500 \<and>
                          (\<forall>e'\<in>set ?tr.
                             \<bar>Time e - lrcTotalMs m1 m2 f\<bar> \<le> \<bar>Time e' - lrcTotalMs m1 m2 f\<bar>) \<and>
                          (\<exists>label. ?follow line = label @ Content e @ LF \<and>
                             CHR 0x0A \<notin> set label \<and> CHR 0x0A \<notin> set (Content e)) \<and>
                          (length f = 2 \<and> decVal m2 < 60 \<longrightarrow>
                             ?follow line =
                               ''['' @ m1 @ '':'' @ m2 @ ''.'' @ f @ '']'' @ Content e @ LF)))"
  proof (intro allI impI, elim conjE)
    fix line m1 m2 f rest
    assume nm: "\<not> isMetadataLine line" and re: "lrcTimeRe line = Some (m1, m2, f, rest)"
    let ?ms = "lrcTotalMs m1 m2 f"
    have d: "decodeLrcTime line = Some ?ms" by (simp add: decodeLrcTime_def re)
    note cl = translationLine_closest[OF assms nm d, of transLrc]
    have a: "line = ''['' @ m1 @ '':'' @ m2 @ ''.'' @ f @ '']'' @ rest"
      using lrcTimeRe_prefix[OF re] by simp
    have b: "(\<forall>e\<in>set ?tr. 500 \<le> \<bar>Time e - ?ms\<bar>) \<longrightarrow> ?follow line = []" using cl by blast
    have nn: "0 \<le> ?ms" using lrcTotalMs_range[OF re] by simp
    have c: "(\<exists>e\<in>set ?tr. \<bar>Time e - ?ms\<bar> < 500) \<longrightarrow>
                       (\<exists>e\<in>set ?tr.
                          \<bar>Time e - ?ms\<bar> < 500 \<and>
                          (\<forall>e'\<in>set ?tr. \<bar>Time e - ?ms\<bar> \<le> \<bar>Time e' - ?ms\<bar>) \<and>
                          (\<exists>label. ?follow line = label @ Content e @ LF \<and>
                             CHR 0x0A \<notin> set label \<and> CHR 0x0A \<notin> set (Content e)) \<and>
                          (length f = 2 \<and> decVal m2 < 60 \<longrightarrow>
                             ?follow line =
                               ''['' @ m1 @ '':'' @ m2 @ ''.'' @ f @ '']'' @ Content e @ LF))"
    proof
      assume "\<exists>e\<in>set ?tr. \<bar>Time e - ?ms\<bar> < 500"
      with cl obtain e where e: "e \<in> set ?tr" "\<bar>Time e - ?ms\<bar> < 500"
        "\<forall>e'\<in>set ?tr. \<bar>Time e - ?ms\<bar> \<le> \<bar>Time e' - ?ms\<bar>"
        "?follow line = msToLrcTime ?ms @ Content e @ LF" by blast
      have l1: "CHR 0x0A \<notin> set (msToLrcTime ?ms)" by (rule msToLrcTime_no_LF[OF nn])
      have l2: "CHR 0x0A \<notin> set (Content e)"
        by (rule parseLrcTimedLines_content_line[OF assms e(1)])
      have lab: "\<exists>label. ?follow line = label @ Content e @ LF \<and>
                             CHR 0x0A \<notin> set label \<and> CHR 0x0A \<notin> set (Content e)"
        using e(4) l1 l2 by blast
      have own: "length f = 2 \<and> decVal m2 < 60 \<longrightarrow>
                   ?follow line = ''['' @ m1 @ '':'' @ m2 @ ''.'' @ f @ '']'' @ Content e @ LF"
      proof
        assume h: "length f = 2 \<and> decVal m2 < 60"
        from msToLrcTime_own_label[OF re] h
        have "msToLrcTime ?ms = ''['' @ m1 @ '':'' @ m2 @ ''.'' @ f @ '']''" by blast
        with e(4) show "?follow line = ''['' @ m1 @ '':'' @ m2 @ ''.'' @ f @ '']'' @ Content e @ LF"
          by simp
      qed
      from e(1,2,3) lab own show "\<exists>e\<in>set ?tr.
                          \<bar>Time e - ?ms\<bar> < 500 \<and>
                          (\<forall>e'\<in>set ?tr. \<bar>Time e - ?ms\<bar> \<le> \<bar>Time e' - ?ms\<bar>) \<and>
                          (\<exists>label. ?follow line = label @ Content e @ LF \<and>
                             CHR 0x0A \<notin> set label \<and> CHR 0x0A \<notin> set (Content e)) \<and>
                          (length f = 2 \<and> decVal m2 < 60 \<longrightarrow>
                             ?follow line =
                               ''['' @ m1 @ '':'' @ m2 @ ''.'' @ f @ '']'' @ Content e @ LF)"
        by blast
    qed
    from a b c show "line = ''['' @ m1 @ '':'' @ m2 @ ''.'' @ f @ '']'' @ rest \<and>
                    ((\<forall>e\<in>set ?tr. 500 \<le> \<bar>Time e - ?ms\<bar>) \<longrightarrow> ?follow line = []) \<and>
                    ((\<exists>e\<in>set ?tr. \<bar>Time e - ?ms\<bar> < 500) \<longrightarrow>
                       (\<exists>e\<in>set ?tr.
                          \<bar>Time e - ?ms\<bar> < 500 \<and>
                          (\<forall>e'\<in>set ?tr. \<bar>Time e - ?ms\<bar> \<le> \<bar>Time e' - ?ms\<bar>) \<and>
                          (\<exists>label. ?follow line = label @ Content e @ LF \<and>
                             CHR 0x0A \<notin> set label \<and> CHR 0x0A \<notin> set (Content e)) \<and>
                          (length f = 2 \<and> decVal m2 < 60 \<longrightarrow>
                             ?follow line =
                               ''['' @ m1 @ '':'' @ m2 @ ''.'' @ f @ '']'' @ Content e @ LF)))"
      by blast
  qed
  show ?thesis
  proof (intro conjI impI)
    show "TrimSpace transLrc = [] \<Longrightarrow>
            mergeLrcWithTranslation sortSlice originalLrc transLrc = originalLrc"
      using 1 by blast
  next
    assume nb: "TrimSpace transLrc \<noteq> []"
    from 2[OF nb] 3 4 show "\<exists>follow.
               mergeLrcWithTranslation sortSlice originalLrc transLrc =
                 concat (map (\<lambda>line0. if TrimSpace line0 = [] then []
                                        else TrimSpace line0 @ LF @ follow (TrimSpace line0))
                             (Split originalLrc)) \<and>
               (\<forall>line. isMetadataLine line \<or> lrcTimeRe line = None \<longrightarrow> follow line = []) \<and>
               (\<forall>line m1 m2 f rest.
                  \<not> isMetadataLine line \<and> lrcTimeRe line = Some (m1, m2, f, rest) \<longrightarrow>
                    line = ''['' @ m1 @ '':'' @ m2 @ ''.'' @ f @ '']'' @ rest \<and>
                    ((\<forall>e\<in>set (parseLrcTimedLines sortSlice transLrc).
                        500 \<le> \<bar>Time e - lrcTotalMs m1 m2 f\<bar>) \<longrightarrow> follow line = []) \<and>
                    ((\<exists>e\<in>set (parseLrcTimedLines sortSlice transLrc).
                        \<bar>Time e - lrcTotalMs m1 m2 f\<bar> < 500) \<longrightarrow>
                       (\<exists>e\<in>set (parseLrcTimedLines sortSlice transLrc).
                          \<bar>Time e - lrcTotalMs m1 m2 f\<bar> < 500 \<and>
                          (\<forall>e'\<in>set (parseLrcTimedLines sortSlice transLrc).
                             \<bar>Time e - lrcTotalMs m1 m2 f\<bar> \<le> \<bar>Time e' - lrcTotalMs m1 m2 f\<bar>) \<and>
                          (\<exists>label. follow line = label @ Content e @ LF \<and>
                             CHR 0x0A \<notin> set label \<and> CHR 0x0A \<notin> set (Content e)) \<and>
                          (length f = 2 \<and> decVal m2 < 60 \<longrightarrow>
                             follow line =
                               ''['' @ m1 @ '':'' @ m2 @ ''.'' @ f @ '']'' @ Content e @ LF))))"
      by (intro exI[of _ ?follow] conjI)
  qed
qed

theorem mergeLrcWithTranslation_lines_witness:
  "sortSliceContract stableSortSlice \<and>
   TrimSpace (''[00:01.50]t1'' @ LF @ ''[00:09.00]t2'') \<noteq> [] \<and>
   parseLrcTimedLines stableSortSlice (''[00:01.50]t1'' @ LF @ ''[00:09.00]t2'') =
     [\<lparr>Time = 1500, Content = ''t1''\<rparr>, \<lparr>Time = 9000, Content = ''t2''\<rparr>] \<and>
   \<not> isMetadataLine ''[00:01.12]hello'' \<and>
   lrcTimeRe ''[00:01.12]hello'' = Some (''00'', ''01'', ''12'', ''hello'') \<and>
   lrcTotalMs ''00'' ''01'' ''12'' = 1120 \<and>
   mergeLrcWithTranslation stableSortSlice
     (''[ti:x]'' @ LF @ ''[00:01.12]hello'' @ LF @ ''junk'' @ LF @ ''[00:05.00]far'')
     (''[00:01.50]t1'' @ LF @ ''[00:09.00]t2'') =
     ''[ti:x]'' @ LF @ ''[00:01.12]hello'' @ LF @ ''[00:01.12]t1'' @ LF @ ''junk'' @ LF @
     ''[00:05.00]far'' @ LF \<and>
   (\<exists>follow.
      mergeLrcWithTranslation stableSortSlice
        (''[ti:x]'' @ LF @ ''[00:01.12]hello'' @ LF @ ''junk'' @ LF @ ''[00:05.00]far'')
        (''[00:01.50]t1'' @ LF @ ''[00:09.00]t2'') =
        concat (map (\<lambda>line0. if TrimSpace line0 = [] then []
                               else TrimSpace line0 @ LF @ follow (TrimSpace line0))
          (Split (''[ti:x]'' @ LF @ ''[00:01.12]hello'' @ LF @ ''junk'' @ LF @ ''[00:05.00]far''))) \<and>
      follow ''[ti:x]'' = [] \<and> follow ''junk'' = [] \<and> follow ''[00:05.00]far'' = [] \<and>
      follow ''[00:01.12]hello'' = ''[00:01.12]t1'' @ LF)"
proof -
  let ?o = "''[ti:x]'' @ LF @ ''[00:01.12]hello'' @ LF @ ''junk'' @ LF @ ''[00:05.00]far''"
  let ?t = "''[00:01.50]t1'' @ LF @ ''[00:09.00]t2''"
  let ?tr = "[\<lparr>Time = 1500, Content = ''t1''\<rparr>, \<lparr>Time = 9000, Content = ''t2''\<rparr>]"
  have nb: "TrimSpace ?t \<noteq> []" by code_simp
  have tr: "parseLrcTimedLines stableSortSlice ?t = ?tr" by code_simp
  have nm: "\<not> isMetadataLine ''[00:01.12]hello''" by code_simp
  have re: "lrcTimeRe ''[00:01.12]hello'' = Some (''00'', ''01'', ''12'', ''hello'')" by code_simp
  have ms: "lrcTotalMs ''00'' ''01'' ''12'' = 1120" by code_simp
  have two: "length ''12'' = 2 \<and> decVal ''01'' < 60" by code_simp
  have meta: "isMetadataLine ''[ti:x]''" by code_simp
  have junk: "lrcTimeRe ''junk'' = None" by code_simp
  have nm5: "\<not> isMetadataLine ''[00:05.00]far''" by code_simp
  have re5: "lrcTimeRe ''[00:05.00]far'' = Some (''00'', ''05'', ''00'', ''far'')" by code_simp
  have ms5: "lrcTotalMs ''00'' ''05'' ''00'' = 5000" by code_simp
  have v: "mergeLrcWithTranslation stableSortSlice ?o ?t =
     ''[ti:x]'' @ LF @ ''[00:01.12]hello'' @ LF @ ''[00:01.12]t1'' @ LF @ ''junk'' @ LF @
     ''[00:05.00]far'' @ LF"
    by code_simp
  from mergeLrcWithTranslation_lines[OF stableSortSlice_contract, of ?t ?o] nb
  obtain follow where
    f1: "mergeLrcWithTranslation stableSortSlice ?o ?t =
           concat (map (\<lambda>line0. if TrimSpace line0 = [] then []
                                  else TrimSpace line0 @ LF @ follow (TrimSpace line0)) (Split ?o))"
    and f2: "\<forall>line. isMetadataLine line \<or> lrcTimeRe line = None \<longrightarrow> follow line = []"
    and f3: "\<forall>line m1 m2 f rest.
                  \<not> isMetadataLine line \<and> lrcTimeRe line = Some (m1, m2, f, rest) \<longrightarrow>
                    line = ''['' @ m1 @ '':'' @ m2 @ ''.'' @ f @ '']'' @ rest \<and>
                    ((\<forall>e\<in>set (parseLrcTimedLines stableSortSlice ?t).
                        500 \<le> \<bar>Time e - lrcTotalMs m1 m2 f\<bar>) \<longrightarrow> follow line = []) \<and>
                    ((\<exists>e\<in>set (parseLrcTimedLines stableSortSlice ?t).
                        \<bar>Time e - lrcTotalMs m1 m2 f\<bar> < 500) \<longrightarrow>
                       (\<exists>e\<in>set (parseLrcTimedLines stableSortSlice ?t).
                          \<bar>Time e - lrcTotalMs m1 m2 f\<bar> < 500 \<and>
                          (\<forall>e'\<in>set (parseLrcTimedLines stableSortSlice ?t).
                             \<bar>Time e - lrcTotalMs m1 m2 f\<bar> \<le> \<bar>Time e' - lrcTotalMs m1 m2 f\<bar>) \<and>
                          (\<exists>label. follow line = label @ Content e @ LF \<and>
                             CHR 0x0A \<notin> set label \<and> CHR 0x0A \<notin> set (Content e)) \<and>
                          (length f = 2 \<and> decVal m2 < 60 \<longrightarrow>
                             follow line =
                               ''['' @ m1 @ '':'' @ m2 @ ''.'' @ f @ '']'' @ Content e @ LF)))"
    by blast
  from f2 meta have a: "follow ''[ti:x]'' = []" by blast
  from f2 junk have b: "follow ''junk'' = []" by blast
  from f3 nm5 re5 have "(\<forall>e\<in>set (parseLrcTimedLines stableSortSlice ?t).
                        500 \<le> \<bar>Time e - lrcTotalMs ''00'' ''05'' ''00''\<bar>) \<longrightarrow> follow ''[00:05.00]far'' = []"
    by blast
  then have c: "follow ''[00:05.00]far'' = []" unfolding tr ms5 by simp
  from f3 nm re have "(\<exists>e\<in>set (parseLrcTimedLines stableSortSlice ?t).
                        \<bar>Time e - lrcTotalMs ''00'' ''01'' ''12''\<bar> < 500) \<longrightarrow>
                       (\<exists>e\<in>set (parseLrcTimedLines stableSortSlice ?t).
                          \<bar>Time e - lrcTotalMs ''00'' ''01'' ''12''\<bar> < 500 \<and>
                          (length ''12'' = 2 \<and> decVal ''01'' < 60 \<longrightarrow>
                             follow ''[00:01.12]hello'' =
                               ''['' @ ''00'' @ '':'' @ ''01'' @ ''.'' @ ''12'' @ '']'' @ Content e @ LF))"
    by blast
  then have "\<exists>e\<in>set ?tr. \<bar>Time e - 1120\<bar> < 500 \<and>
                follow ''[00:01.12]hello'' =
                   ''['' @ ''00'' @ '':'' @ ''01'' @ ''.'' @ ''12'' @ '']'' @ Content e @ LF"
    unfolding tr ms using two by simp
  then have d: "follow ''[00:01.12]hello'' = ''[00:01.12]t1'' @ LF" by simp
  from stableSortSlice_contract nb tr nm re ms v f1 a b c d show ?thesis by blast
qed

text \<open>
  Claim C2 as stated fails on a line with surrounding white space: the line is emitted
  trimmed, not verbatim, also when its label has two fractional digits. With a three-digit
  fractional field the translation line moreover carries the label \<^verbatim>\<open>[00:01.12]\<close> under the
  line \<^verbatim>\<open>[00:01.123]hi\<close>: line 332 of the source encodes the decoded time again, where the
  comment at line 331 and \<^verbatim>\<open>convertYrcToEnhancedLrc\<close> keep the label of the line.
\<close>

theorem mergeLrcWithTranslation_verbatim_counterexample:
  "mergeLrcWithTranslation stableSortSlice ('' [00:01.123]hi '') (''[00:01.10]salut'') =
     ''[00:01.123]hi'' @ LF @ ''[00:01.12]salut'' @ LF \<and>
   Split (mergeLrcWithTranslation stableSortSlice ('' [00:01.123]hi '') (''[00:01.10]salut'')) =
     [''[00:01.123]hi'', ''[00:01.12]salut'', []] \<and>
   Split ('' [00:01.123]hi '') = ['' [00:01.123]hi ''] \<and>
   mergeLrcWithTranslation stableSortSlice ('' [00:01.12]hi '') (''[00:01.10]salut'') =
     ''[00:01.12]hi'' @ LF @ ''[00:01.12]salut'' @ LF \<and>
   Split ('' [00:01.12]hi '') = ['' [00:01.12]hi '']"
  by code_simp

section \<open>Properties of the response builder\<close>

lemma TrimSpace_Nil: "TrimSpace [] = []"
  by (simp add: TrimSpace_def trimLeft_Nil trimRight_Nil)

lemma merge_nonblank:
  assumes "TrimSpace originalLrc \<noteq> []"
  shows "mergeLrcWithTranslation sortSlice originalLrc transLrc \<noteq> []"
proof (cases "TrimSpace transLrc = []")
  case True
  from assms have "originalLrc \<noteq> []" using TrimSpace_Nil by auto
  with True show ?thesis by (simp add: mergeLrcWithTranslation_def)
next
  case False
  from assms obtain l where l: "l \<in> set (Split originalLrc)" "TrimSpace l \<noteq> []"
    using blank_text_iff[of originalLrc] by blast
  then have "mergedLine (parseLrcTimedLines sortSlice transLrc) l \<noteq> []"
    by (simp add: mergedLine_def)
  with l(1) have "concat (map (mergedLine (parseLrcTimedLines sortSlice transLrc)) (Split originalLrc)) \<noteq> []"
    by auto
  with False show ?thesis
    by (simp add: mergeLrcWithTranslation_def mergeLrcWithTranslation_loop_eq)
qed

lemma convertYrcToTtml_error:
  "(convertYrcToTtml sortSlice data = Inl err \<longleftrightarrow>
      err = NoValidYrcLines \<and> parseYrcToLines (Yrc data) = []) \<and>
   ((\<exists>ttml. convertYrcToTtml sortSlice data = Inr ttml) \<longleftrightarrow> parseYrcToLines (Yrc data) \<noteq> [])"
  by (auto simp: convertYrcToTtml_def Let_def split: prod.splits)

lemma convertYrcToEnhancedLrc_Inr:
  "\<exists>eslrc. convertYrcToEnhancedLrc rangeMap sortSlice y l t r = Inr eslrc"
  by (simp add: convertYrcToEnhancedLrc_def Let_def)

text \<open>
  Claim C9, as amended. With an empty \<open>Yrc\<close> the fields \<open>ESLRC\<close> and \<open>TTML\<close> are empty. The
  field \<open>LRC\<close> is the merged LRC: the original text when the translation is blank, and not
  empty whenever the original has a line that is not blank. With a non-empty \<open>Yrc\<close> the
  enhanced LRC writer never fails and \<open>ESLRC\<close> is its output; the TTML writer fails, with
  \<open>NoValidYrcLines\<close>, exactly when no YRC line was parsed, and then \<open>TTML\<close> alone is left
  empty. The song, singer and album are passed on.
\<close>

theorem buildResponse_fields:
  "(Yrc data = [] \<longrightarrow>
      ESLRC (buildResponse rangeMap sortSlice song singer album data) = [] \<and>
      TTML (buildResponse rangeMap sortSlice song singer album data) = []) \<and>
   LRC (buildResponse rangeMap sortSlice song singer album data) =
      mergeLrcWithTranslation sortSlice (Lrc data) (Trans data) \<and>
   (TrimSpace (Trans data) = [] \<longrightarrow>
      LRC (buildResponse rangeMap sortSlice song singer album data) = Lrc data) \<and>
   (TrimSpace (Lrc data) \<noteq> [] \<longrightarrow>
      LRC (buildResponse rangeMap sortSlice song singer album data) \<noteq> []) \<and>
   (Yrc data \<noteq> [] \<longrightarrow>
      convertYrcToEnhancedLrc rangeMap sortSlice (Yrc data) (Lrc data) (Trans data) (Roma data) =
        Inr (ESLRC (buildResponse rangeMap sortSlice song singer album data))) \<and>
   (Yrc data \<noteq> [] \<and> parseYrcToLines (Yrc data) \<noteq> [] \<longrightarrow>
      convertYrcToTtml sortSlice data =
        Inr (TTML (buildResponse rangeMap sortSlice song singer album data))) \<and>
   (Yrc data \<noteq> [] \<and> parseYrcToLines (Yrc data) = [] \<longrightarrow>
      convertYrcToTtml sortSlice data = Inl NoValidYrcLines \<and>
      TTML (buildResponse rangeMap sortSlice song singer album data) = []) \<and>
   RespCode (buildResponse rangeMap sortSlice song singer album data) = 200 \<and>
   Song (buildResponse rangeMap sortSlice song singer album data) = song \<and>
   Singer (buildResponse rangeMap sortSlice song singer album data) = singer \<and>
   Album (buildResponse rangeMap sortSlice song singer album data) = album"
proof -
  let ?r = "buildResponse rangeMap sortSlice song singer album data"
  obtain eslrc where e: "convertYrcToEnhancedLrc rangeMap sortSlice (Yrc data) (Lrc data)
      (Trans data) (Roma data) = Inr eslrc"
    using convertYrcToEnhancedLrc_Inr by blast
  have 1: "Yrc data = [] \<longrightarrow> ESLRC ?r = [] \<and> TTML ?r = []"
    by (simp add: buildResponse_def Let_def)
  have 2: "LRC ?r = mergeLrcWithTranslation sortSlice (Lrc data) (Trans data)"
    by (simp add: buildResponse_def Let_def e split: sum.splits)
  have 3: "TrimSpace (Trans data) = [] \<longrightarrow> LRC ?r = Lrc data"
    unfolding 2 by (simp add: mergeLrcWithTranslation_def)
  have 4: "TrimSpace (Lrc data) \<noteq> [] \<longrightarrow> LRC ?r \<noteq> []"
    unfolding 2 using merge_nonblank by blast
  have 5: "Yrc data \<noteq> [] \<longrightarrow>
      convertYrcToEnhancedLrc rangeMap sortSlice (Yrc data) (Lrc data) (Trans data) (Roma data) =
        Inr (ESLRC ?r)"
    by (simp add: buildResponse_def Let_def e split: sum.splits)
  have 6: "Yrc data \<noteq> [] \<and> parseYrcToLines (Yrc data) \<noteq> [] \<longrightarrow>
      convertYrcToTtml sortSlice data = Inr (TTML ?r)"
  proof
    assume a: "Yrc data \<noteq> [] \<and> parseYrcToLines (Yrc data) \<noteq> []"
    then obtain ttml where t: "convertYrcToTtml sortSlice data = Inr ttml"
      using convertYrcToTtml_error[of sortSlice data] by blast
    with a show "convertYrcToTtml sortSlice data = Inr (TTML ?r)"
      by (simp add: buildResponse_def Let_def e)
  qed
  have 7: "Yrc data \<noteq> [] \<and> parseYrcToLines (Yrc data) = [] \<longrightarrow>
      convertYrcToTtml sortSlice data = Inl NoValidYrcLines \<and> TTML ?r = []"
  proof
    assume a: "Yrc data \<noteq> [] \<and> parseYrcToLines (Yrc data) = []"
    then have t: "convertYrcToTtml sortSlice data = Inl NoValidYrcLines"
      using convertYrcToTtml_error[of sortSlice data NoValidYrcLines] by blast
    with a show "convertYrcToTtml sortSlice data = Inl NoValidYrcLines \<and> TTML ?r = []"
      by (simp add: buildResponse_def Let_def e)
  qed
  have 8: "RespCode ?r = 200 \<and> Song ?r = song \<and> Singer ?r = singer \<and> Album ?r = album"
    by (simp add: buildResponse_def Let_def e split: sum.splits)
  from 1 2 3 4 5 6 7 8 show ?thesis by blast
qed

theorem buildResponse_fields_witness:
  "buildResponse id stableSortSlice ''s'' ''a'' ''b''
     \<lparr>Code = 200, Message = [], Lrc = ''[ti:T]'' @ LF @ ''[00:01.00]Hi'', Trans = [],
      Yrc = ''no lyric'', Roma = []\<rparr> =
   \<lparr>RespCode = 200, RespMessage = messageOK, Song = ''s'', Singer = ''a'', Album = ''b'',
    LRC = ''[ti:T]'' @ LF @ ''[00:01.00]Hi'', ESLRC = ''[ti:T]'' @ LF, TTML = []\<rparr> \<and>
   convertYrcToTtml stableSortSlice
     \<lparr>Code = 200, Message = [], Lrc = ''[ti:T]'' @ LF @ ''[00:01.00]Hi'', Trans = [],
      Yrc = ''no lyric'', Roma = []\<rparr> = Inl NoValidYrcLines"
proof -
  let ?d = "\<lparr>Code = 200, Message = [], Lrc = ''[ti:T]'' @ LF @ ''[00:01.00]Hi'', Trans = [],
      Yrc = ''no lyric'', Roma = []\<rparr>"
  have y: "Yrc ?d \<noteq> [] \<and> parseYrcToLines (Yrc ?d) = []" by code_simp
  have v: "buildResponse id stableSortSlice ''s'' ''a'' ''b'' ?d =
     \<lparr>RespCode = 200, RespMessage = messageOK, Song = ''s'', Singer = ''a'', Album = ''b'',
      LRC = ''[ti:T]'' @ LF @ ''[00:01.00]Hi'', ESLRC = ''[ti:T]'' @ LF, TTML = []\<rparr>"
    by code_simp
  from buildResponse_fields[of ?d id stableSortSlice "''s''" "''a''" "''b''"] y
  have "convertYrcToTtml stableSortSlice ?d = Inl NoValidYrcLines" by blast
  with v show ?thesis by blast
qed

text \<open>
  Claim C9 as stated fails for an original text that is not empty but blank, with a
  translation that is not blank: every line is skipped and \<open>LRC\<close> is empty.
\<close>

theorem buildResponse_lrc_counterexample:
  "Lrc \<lparr>Code = 200, Message = [], Lrc = '' '', Trans = ''[00:01.00]x'', Yrc = [], Roma = []\<rparr> \<noteq> [] \<and>
   LRC (buildResponse id stableSortSlice [] [] []
     \<lparr>Code = 200, Message = [], Lrc = '' '', Trans = ''[00:01.00]x'', Yrc = [], Roma = []\<rparr>) = []"
  by code_simp

end
